theory Spec2Isabelle
  imports Complex_Main "HOL-Library.Word" "HOL-Library.Monad_Syntax"
begin

unbundle bit_operations_syntax

section \<open>The SPI bus and the environment of the firmware\<close>

text \<open>
  The firmware talks to the flash chip through chip-select framed SPI transactions:
  \<^verbatim>\<open>cs_low(); spi_tx(hdr, h); [spi_tx(data, len);] [spi_rx(buf, n);] cs_high();\<close>
  The chip itself is not part of the repository, so the bus handle carries the chip's
  behaviour as three functions of an arbitrary device state \<open>'d\<close>: the \<open>i\<close>-th byte the
  chip answers after the transmitted bytes, the chip's state after the transaction, and
  the time the transaction takes in microseconds. Every theorem about the drivers is
  for every such chip. The handle also holds the microsecond clock read by
  \<^verbatim>\<open>time_us_64()\<close> (a 64-bit counter that does not wrap in 584000 years, hence a
  natural number), the list of transactions issued so far, each with the bytes sent
  and the bytes received, and the lines written by
  those \<^verbatim>\<open>printf\<close> calls that are the only carrier of a result.
\<close>

type_synonym u8 = "8 word"
type_synonym u32 = "32 word"

datatype log_event =
    LogUnprotectBefore u8 u8 u8
  | LogUnprotectAfter u8 u8 u8
  | LogUnprotectWarn
  | LogReadbackFailed u32
  | LogVerifyMismatch u32 nat u8 u8

record 'd bus =
  respond :: "'d \<Rightarrow> u8 list \<Rightarrow> nat \<Rightarrow> u8"
  after :: "'d \<Rightarrow> u8 list \<Rightarrow> nat \<Rightarrow> 'd"
  duration :: "'d \<Rightarrow> u8 list \<Rightarrow> nat \<Rightarrow> nat"
  dev :: 'd
  now :: nat
  trace :: "(u8 list \<times> u8 list) list"
  console :: "log_event list"

definition spi_xfer :: "'d bus \<Rightarrow> u8 list \<Rightarrow> nat \<Rightarrow> u8 list \<times> 'd bus" where
  "spi_xfer b tx n =
     (map (respond b (dev b) tx) [0..<n],
      b\<lparr>dev := after b (dev b) tx n,
        now := now b + duration b (dev b) tx n,
        trace := trace b @ [(tx, map (respond b (dev b) tx) [0..<n])]\<rparr>)"

definition sleep_us :: "nat \<Rightarrow> 'd bus \<Rightarrow> 'd bus" where
  "sleep_us us b = b\<lparr>now := now b + us\<rparr>"

definition sleep_ms :: "nat \<Rightarrow> 'd bus \<Rightarrow> 'd bus" where
  "sleep_ms ms b = sleep_us (ms * 1000) b"

definition printf :: "log_event \<Rightarrow> 'd bus \<Rightarrow> 'd bus" where
  "printf e b = b\<lparr>console := console b @ [e]\<rparr>"

section \<open>Size detection: \<^verbatim>\<open>flash_detect_size\<close> of flash_backup_restore.c and \<^verbatim>\<open>identify\<close>\<close>

text \<open>
  \<^verbatim>\<open>(uint32_t)b[0] | ((uint32_t)b[1] << 8) | ((uint32_t)b[2] << 16) | ((uint32_t)b[3] << 24)\<close>
\<close>

definition le32 :: "u8 list \<Rightarrow> u32" where
  "le32 bs = ucast (bs ! 0) OR push_bit 8 (ucast (bs ! 1)) OR
             push_bit 16 (ucast (bs ! 2)) OR push_bit 24 (ucast (bs ! 3))"

text \<open>
  The density branch of \<^verbatim>\<open>flash_detect_size\<close> in the first flash_backup_restore.c:
  \<^verbatim>\<open>
  if (density_bits & 0x80000000) {
      uint32_t size_bits = (density_bits & 0x7FFFFFFF) + 1;
      size = (size_bits + 7) / 8;
  } else {
      size = (density_bits + 1 + 7) / 8;
  }\<close>
\<close>

definition density_to_size :: "u32 \<Rightarrow> u32" where
  "density_to_size density_bits =
     (if density_bits AND 0x80000000 \<noteq> 0
      then (let size_bits = (density_bits AND 0x7FFFFFFF) + 1 in (size_bits + 7) div 8)
      else (density_bits + 1 + 7) div 8)"


definition read_jedec_id_local :: "'d bus \<Rightarrow> u8 list \<times> 'd bus" where
  "read_jedec_id_local b = spi_xfer b [0x9F] 3"

text \<open>
  The read of the density field, in both files: the SFDP command \<^verbatim>\<open>0x5A\<close>, three address
  bytes and one dummy byte, then four bytes received and put together.
  \<^verbatim>\<open>
  cmd[1] = 0x00; cmd[2] = 0x00; cmd[3] = 0x04;
  cs_low(); spi_tx(cmd, 5); spi_rx(density_bytes, 4); cs_high();\<close>
\<close>

definition read_density_field :: "'d bus \<Rightarrow> u32 \<times> 'd bus" where
  "read_density_field b =
     (let (density_bytes, b') = spi_xfer b [0x5A, 0x00, 0x00, 0x04, 0x00] 4
      in (le32 density_bytes, b'))"

text \<open>
  \<^verbatim>\<open>flash_detect_size\<close> returns the size in bytes, 0 when detection failed. The
  signature is read with the SFDP command at address 0.
\<close>

definition flash_detect_size :: "'d bus \<Rightarrow> u32 \<times> 'd bus" where
  "flash_detect_size b =
     (let (sfdp_sig, b1) = spi_xfer b [0x5A, 0x00, 0x00, 0x00, 0x00] 4 in
      if sfdp_sig ! 0 = 0x53 \<and> sfdp_sig ! 1 = 0x46 \<and> sfdp_sig ! 2 = 0x44 \<and> sfdp_sig ! 3 = 0x50
      then (let (density_bits, b2) = read_density_field b1
            in (density_to_size density_bits, b2))
      else (let (jedec, b2) = read_jedec_id_local b1;
                capacity_code = jedec ! 2
            in if capacity_code \<ge> 0x10 \<and> capacity_code \<le> 0x1F
               then (push_bit (unat capacity_code) 1, b2)
               else (0, b2)))"


text \<open>
  The density branch of \<^verbatim>\<open>identify\<close> (picotoflash.c and the other copies of the main
  program); \<^verbatim>\<open>density_bits\<close> is 0 from the \<^verbatim>\<open>memset\<close>, and the value stays a number of
  bits. A shift of a 32-bit value by 32 or more is undefined in C: \<open>None\<close>.
  \<^verbatim>\<open>
  if ((d2 & 0x80000000u) == 0) {
      id->density_bits = d2 + 1u;
  } else {
      uint32_t n = (d2 & 0x7FFFFFFFu) + 1u;
      if (n >= 32) id->density_bits = (1u << n);
  }\<close>
\<close>

definition identify_density :: "u32 \<Rightarrow> u32 option" where
  "identify_density d2 =
     (if d2 AND 0x80000000 = 0 then Some (d2 + 1)
      else (let n = (d2 AND 0x7FFFFFFF) + 1 in
            if n \<ge> 32 then None else Some 0))"

text \<open>
  One copy of the main program has the guard the other way round:
  \<^verbatim>\<open>if(n<32) id->density_bits=(1u<<n);\<close>
\<close>

definition identify_density_n32 :: "u32 \<Rightarrow> u32 option" where
  "identify_density_n32 d2 =
     (if d2 AND 0x80000000 = 0 then Some (d2 + 1)
      else (let n = (d2 AND 0x7FFFFFFF) + 1 in
            if n < 32 then Some (push_bit (unat n) 1) else Some 0))"

section \<open>The JEDEC backup and restore module (jedec_universal_backup.h)\<close>

record jedec_chip_t =
  manuf_id :: u8
  mem_type :: u8
  capacity_id :: u8
  total_bytes :: u32
  has_sfdp :: bool
  use_4byte_addr :: bool
  page_size :: u32
  sector_size :: u32
  read_cmd :: u8
  dummy_cycles :: u8
  effective_spi_hz :: u32

definition wren :: "'d bus \<Rightarrow> 'd bus" where
  "wren b = snd (spi_xfer b [0x06] 0)"

definition rd_status1 :: "'d bus \<Rightarrow> u8 \<times> 'd bus" where
  "rd_status1 b = (let (v, b') = spi_xfer b [0x05] 1 in (v ! 0, b'))"

definition rd_status2 :: "'d bus \<Rightarrow> u8 \<times> 'd bus" where
  "rd_status2 b = (let (v, b') = spi_xfer b [0x35] 1 in (v ! 0, b'))"

definition rd_status3 :: "'d bus \<Rightarrow> u8 \<times> 'd bus" where
  "rd_status3 b = (let (v, b') = spi_xfer b [0x15] 1 in (v ! 0, b'))"

definition read_jedec_id :: "'d bus \<Rightarrow> u8 list \<times> 'd bus" where
  "read_jedec_id b = spi_xfer b [0x9F] 3"

definition try_sfdp :: "nat \<Rightarrow> 'd bus \<Rightarrow> bool \<times> 'd bus" where
  "try_sfdp len b =
     (let (buf, b') = spi_xfer b [0x5A, 0, 0, 0, 0] len in
      (len \<ge> 4 \<and> buf ! 0 = 0x53 \<and> buf ! 1 = 0x46 \<and> buf ! 2 = 0x44 \<and> buf ! 3 = 0x50, b'))"

text \<open>\<^verbatim>\<open>if (cap_id >= 32) return 0; return 1u << cap_id;\<close>\<close>

definition capacity_from_id :: "u8 \<Rightarrow> u32" where
  "capacity_from_id cap_id = (if cap_id \<ge> 32 then 0 else push_bit (unat cap_id) 1)"

text \<open>
  \<^verbatim>\<open>jedec_probe\<close> always returns \<^verbatim>\<open>true\<close>. \<open>hz\<close> is the rate that
  \<^verbatim>\<open>spi_set_baudrate\<close> reports.
\<close>

definition jedec_probe :: "u32 \<Rightarrow> 'd bus \<Rightarrow> bool \<times> jedec_chip_t \<times> 'd bus" where
  "jedec_probe hz b =
     (let (id, b1) = read_jedec_id b;
          (sfdp, b2) = try_sfdp 16 b1;
          total0 = capacity_from_id (id ! 2);
          total = (if total0 = 0 then 512 * 1024 else total0);
          use4 = (total > 16 * 1024 * 1024);
          b3 = (if use4 then snd (spi_xfer b2 [0xB7] 0) else b2)
      in (True,
          \<lparr>manuf_id = id ! 0, mem_type = id ! 1, capacity_id = id ! 2,
           total_bytes = total, has_sfdp = sfdp, use_4byte_addr = use4,
           page_size = 256, sector_size = 4096,
           read_cmd = (if sfdp then 0x0B else 0x03),
           dummy_cycles = (if sfdp then 8 else 0),
           effective_spi_hz = hz\<rparr>,
          b3))"

text \<open>
  The address part of a command header, as \<^verbatim>\<open>jedec_read_chunk\<close>, \<^verbatim>\<open>erase_4k\<close> and
  \<^verbatim>\<open>prog_page\<close> write it:
  \<^verbatim>\<open>
  if (chip->use_4byte_addr) h[n++]=(addr>>24)&0xFF;
  h[n++]=(addr>>16)&0xFF; h[n++]=(addr>>8)&0xFF; h[n++]=(addr)&0xFF;\<close>
\<close>

definition addr_hdr :: "jedec_chip_t \<Rightarrow> u32 \<Rightarrow> u8 list" where
  "addr_hdr chip addr =
     (if use_4byte_addr chip then [ucast (drop_bit 24 addr AND 0xFF)] else []) @
     [ucast (drop_bit 16 addr AND 0xFF), ucast (drop_bit 8 addr AND 0xFF), ucast (addr AND 0xFF)]"

definition read_chunk_hdr :: "jedec_chip_t \<Rightarrow> u32 \<Rightarrow> u8 list" where
  "read_chunk_hdr chip addr =
     [read_cmd chip] @ addr_hdr chip addr @ (if read_cmd chip = 0x0B then [0x00] else [])"

definition jedec_read_chunk :: "jedec_chip_t \<Rightarrow> u32 \<Rightarrow> nat \<Rightarrow> 'd bus \<Rightarrow> bool \<times> u8 list \<times> 'd bus" where
  "jedec_read_chunk chip addr len b =
     (let (buf, b') = spi_xfer b (read_chunk_hdr chip addr) len in (True, buf, b'))"

definition erase_4k_hdr :: "jedec_chip_t \<Rightarrow> u32 \<Rightarrow> u8 list" where
  "erase_4k_hdr chip addr = [0x20] @ addr_hdr chip addr"

definition prog_page_hdr :: "jedec_chip_t \<Rightarrow> u32 \<Rightarrow> u8 list" where
  "prog_page_hdr chip addr = [0x02] @ addr_hdr chip addr"

section \<open>The command headers of flash_backup_restore.c\<close>

text \<open>
  The enhanced backup and restore routines build their headers in place, one array for
  each addressing mode, with the opcodes
  \<^verbatim>\<open>CMD_FAST_READ 0x0B, CMD_PP 0x02, CMD_SE_4K 0x20, CMD_BE_64K 0xD8\<close> and
  \<^verbatim>\<open>CMD_FAST_READ_4B 0x0C, CMD_PP_4B 0x12, CMD_SE_4K_4B 0x21, CMD_BE_64K_4B 0xDC\<close>.
  The fast read header ends with one dummy byte.
\<close>

definition cmd_addr :: "bool \<Rightarrow> u8 \<Rightarrow> u8 \<Rightarrow> u32 \<Rightarrow> u8 list" where
  "cmd_addr use_4byte op3 op4 addr =
     (if use_4byte
      then [op4, ucast (drop_bit 24 addr), ucast (drop_bit 16 addr), ucast (drop_bit 8 addr), ucast addr]
      else [op3, ucast (drop_bit 16 addr), ucast (drop_bit 8 addr), ucast addr])"

definition fbr_fast_read_cmd :: "bool \<Rightarrow> u32 \<Rightarrow> u8 list" where
  "fbr_fast_read_cmd use_4byte addr = cmd_addr use_4byte 0x0B 0x0C addr @ [0x00]"

definition fbr_page_program_cmd :: "bool \<Rightarrow> u32 \<Rightarrow> u8 list" where
  "fbr_page_program_cmd use_4byte addr = cmd_addr use_4byte 0x02 0x12 addr"

definition fbr_sector_erase_cmd :: "bool \<Rightarrow> u32 \<Rightarrow> u8 list" where
  "fbr_sector_erase_cmd use_4byte addr = cmd_addr use_4byte 0x20 0x21 addr"

definition fbr_block_erase_cmd :: "bool \<Rightarrow> u32 \<Rightarrow> u8 list" where
  "fbr_block_erase_cmd use_4byte addr = cmd_addr use_4byte 0xD8 0xDC addr"

text \<open>The value of a byte string read as a big-endian number.\<close>

definition be_value :: "u8 list \<Rightarrow> nat" where
  "be_value bs = foldl (\<lambda>acc x. acc * 256 + unat x) 0 bs"


section \<open>Busy polling\<close>

text \<open>
  \<^verbatim>\<open>static void wait_busy(void){ while (rd_status1() & 0x01) { sleep_ms(1); } }\<close>
  The loop has no bound, so the model is a partial function: \<open>None\<close> is "never returns".
  \<^verbatim>\<open>wait_busy\<close> of univ_restore_sd.c is the same loop with \<^verbatim>\<open>tight_loop_contents()\<close>
  in place of the sleep.
\<close>

partial_function (option) wait_busy :: "'d bus \<Rightarrow> 'd bus option" where
  "wait_busy b =
     (case rd_status1 b of (v, b') \<Rightarrow>
        if v AND 0x01 \<noteq> 0 then wait_busy (sleep_ms 1 b') else Some b')"

declare wait_busy.simps [code]

text \<open>
  The bounded poll of the write benchmark (write.c):
  \<^verbatim>\<open>
  static bool flash_wait_busy(spi_inst_t *spi, uint8_t cs, uint32_t timeout_ms) {
      uint64_t start = time_us_64();
      while ((flash_rdsr(spi, cs) & 0x01) != 0) {
          if ((time_us_64() - start) > (uint64_t)timeout_ms * 1000) return false;
          sleep_us(200);
      }
      return true;
  }\<close>
\<close>

definition flash_rdsr :: "'d bus \<Rightarrow> u8 \<times> 'd bus" where
  "flash_rdsr b = (let (v, b') = spi_xfer b [0x05] 1 in (v ! 0, b'))"

function flash_wait_busy_loop :: "nat \<Rightarrow> u32 \<Rightarrow> 'd bus \<Rightarrow> bool \<times> 'd bus" where
  "flash_wait_busy_loop start timeout_ms b =
     (if fst (flash_rdsr b) AND 0x01 \<noteq> 0
      then (if now (snd (flash_rdsr b)) - start > unat timeout_ms * 1000
            then (False, snd (flash_rdsr b))
            else flash_wait_busy_loop start timeout_ms (sleep_us 200 (snd (flash_rdsr b))))
      else (True, snd (flash_rdsr b)))"
  by pat_completeness auto
termination
proof (relation "measure (\<lambda>(start, timeout_ms, b). unat timeout_ms * 1000 + start + 1 - now b)")
  show "wf (measure (\<lambda>(start, timeout_ms, b :: 'd bus). unat timeout_ms * 1000 + start + 1 - now b))"
    by simp
next
  fix start :: nat and timeout_ms :: u32 and b :: "'d bus"
  assume "\<not> unat timeout_ms * 1000 < now (snd (flash_rdsr b)) - start"
  moreover have "now b \<le> now (snd (flash_rdsr b))"
    by (simp add: flash_rdsr_def spi_xfer_def)
  ultimately show "((start, timeout_ms, sleep_us 200 (snd (flash_rdsr b))), (start, timeout_ms, b))
      \<in> measure (\<lambda>(start, timeout_ms, b). unat timeout_ms * 1000 + start + 1 - now b)"
    by (simp add: sleep_us_def)
qed

declare flash_wait_busy_loop.simps [simp del]

definition flash_wait_busy :: "u32 \<Rightarrow> 'd bus \<Rightarrow> bool \<times> 'd bus" where
  "flash_wait_busy timeout_ms b = flash_wait_busy_loop (now b) timeout_ms b"

section \<open>Erase and program\<close>

definition erase_4k :: "jedec_chip_t \<Rightarrow> u32 \<Rightarrow> 'd bus \<Rightarrow> 'd bus option" where
  "erase_4k chip addr b =
     (let b1 = wren b;
          (_, b2) = spi_xfer b1 (erase_4k_hdr chip addr) 0
      in wait_busy b2)"

text \<open>The header and the data are sent in one chip-select frame.\<close>

definition prog_page :: "jedec_chip_t \<Rightarrow> u32 \<Rightarrow> u8 list \<Rightarrow> nat \<Rightarrow> 'd bus \<Rightarrow> 'd bus option" where
  "prog_page chip addr data len b =
     (let b1 = wren b;
          (_, b2) = spi_xfer b1 (prog_page_hdr chip addr @ take len data) 0
      in wait_busy b2)"

definition ewrsr_legacy :: "'d bus \<Rightarrow> 'd bus" where
  "ewrsr_legacy b = snd (spi_xfer b [0x50] 0)"


section \<open>Best-effort unprotect\<close>

text \<open>
  \<^verbatim>\<open>jedec_try_unprotect\<close> returns \<^verbatim>\<open>true\<close> on every path that returns. The flag
  \<^verbatim>\<open>bp_cleared\<close> is local: its only effect is the warning line. The new SR1 is
  \<^verbatim>\<open>sr1_before & ~((1u<<2)|(1u<<3)|(1u<<4)|(1u<<5)|(1u<<6)|(1u<<7))\<close>, computed in
  32 bits and stored in a byte.
\<close>

definition jedec_try_unprotect :: "jedec_chip_t \<Rightarrow> 'd bus \<Rightarrow> (bool \<times> 'd bus) option" where
  "jedec_try_unprotect chip b =
     (let (sr1_before, b1) = rd_status1 b;
          (sr2_before, b2) = rd_status2 b1;
          (sr3_before, b3) = rd_status3 b2;
          b4 = printf (LogUnprotectBefore sr1_before sr2_before sr3_before) b3;
          b5 = wren b4;
          (_, b6) = spi_xfer b5 [0x98] 0
      in do {
        b7 \<leftarrow> wait_busy b6;
        let sr1_new = (ucast ((ucast sr1_before :: u32) AND
               NOT (push_bit 2 1 OR push_bit 3 1 OR push_bit 4 1 OR
                    push_bit 5 1 OR push_bit 6 1 OR push_bit 7 1)) :: u8);
            sr2_new = sr2_before;
            b8 = ewrsr_legacy b7;
            b9 = wren b8;
            (_, b10) = spi_xfer b9 [0x01, sr1_new, sr2_new] 0
        in do {
          b11 \<leftarrow> wait_busy b10;
          let (sr1_after, b12) = rd_status1 b11;
              (sr2_after, b13) = rd_status2 b12;
              (sr3_after, b14) = rd_status3 b13;
              b15 = printf (LogUnprotectAfter sr1_after sr2_after sr3_after) b14;
              bp_cleared = (sr1_after AND
                 (push_bit 2 1 OR push_bit 3 1 OR push_bit 4 1 OR push_bit 5 1 OR push_bit 6 1) = 0)
          in Some (True, if \<not> bp_cleared then printf LogUnprotectWarn b15 else b15)
        }
      })"

section \<open>Restore\<close>

record jedec_restore_opts_t =
  verify_after_write :: bool
  skip_erase_when_all_ff :: bool
  skip_prog_when_all_ff :: bool
  program_chunk :: u32
  erase_gran :: u32

text \<open>
  \<^verbatim>\<open>for (size_t i=0;i<n;i++) if (p[i]!=0xFF) return false; return true;\<close>
  The callers pass at most as many bytes as the buffer holds.
\<close>

function all_ff_from :: "u8 list \<Rightarrow> nat \<Rightarrow> nat \<Rightarrow> bool" where
  "all_ff_from p n i =
     (if i < n then (if p ! i \<noteq> 0xFF then False else all_ff_from p n (i + 1)) else True)"
  by pat_completeness auto
termination
  by (relation "measure (\<lambda>(p, n, i). n - i)") auto

declare all_ff_from.simps [simp del]

definition all_ff :: "u8 list \<Rightarrow> nat \<Rightarrow> bool" where
  "all_ff p n = all_ff_from p n 0"

text \<open>
  The page loop of a sector. All quantities are 32-bit; \<^verbatim>\<open>size_t\<close> is 32 bits wide on
  the RP2040. The loop does not advance when \<^verbatim>\<open>n\<close> is 0.
  \<^verbatim>\<open>
  for (uint32_t off = 0; off < want; ){
      uint32_t page_addr   = base + off;
      uint32_t page_off    = page_addr & (opts.program_chunk - 1);
      uint32_t this_left   = opts.program_chunk - page_off;
      uint32_t remain      = want - off;
      uint32_t n           = (this_left < remain) ? this_left : remain;
      if (!(opts.skip_prog_when_all_ff && all_ff(&buf[off], n)))
          prog_page(chip, page_addr, &buf[off], n);
      off += n;
  }\<close>
\<close>

partial_function (option) program_pages ::
  "jedec_chip_t \<Rightarrow> jedec_restore_opts_t \<Rightarrow> u32 \<Rightarrow> u8 list \<Rightarrow> u32 \<Rightarrow> u32 \<Rightarrow> 'd bus \<Rightarrow> 'd bus option"
where
  "program_pages chip opts base buf want off b =
     (if off < want then
        (let page_addr = base + off;
             page_off = page_addr AND (program_chunk opts - 1);
             this_left = program_chunk opts - page_off;
             remain = want - off;
             n = (if this_left < remain then this_left else remain)
         in do {
           b' \<leftarrow> (if \<not> (skip_prog_when_all_ff opts \<and> all_ff (drop (unat off) buf) (unat n))
                  then prog_page chip page_addr (drop (unat off) buf) (unat n) b
                  else Some b);
           program_pages chip opts base buf want (off + n) b'
         })
      else Some b)"

declare program_pages.simps [code]

text \<open>\<^verbatim>\<open>while (bad < want && buf[bad] == vbuf[bad]) bad++;\<close>\<close>

function first_bad :: "u8 list \<Rightarrow> u8 list \<Rightarrow> nat \<Rightarrow> nat \<Rightarrow> nat" where
  "first_bad buf vbuf want bad =
     (if bad < want \<and> buf ! bad = vbuf ! bad then first_bad buf vbuf want (bad + 1) else bad)"
  by pat_completeness auto
termination
  by (relation "measure (\<lambda>(buf, vbuf, want, bad). want - bad)") auto

declare first_bad.simps [simp del]

datatype restore_error = ErrNoSource | ErrNoMemory | ErrSource | ErrReadback | ErrVerify

text \<open>
  The source callback \<^verbatim>\<open>src(dest, want, &got, offset, user)\<close> is modelled by the bytes it
  stores to \<^verbatim>\<open>dest\<close>, whose number is \<^verbatim>\<open>got\<close>, its return value and the new state of
  \<^verbatim>\<open>user\<close>.
\<close>

type_synonym 'u jedec_source_cb = "'u \<Rightarrow> nat \<Rightarrow> u32 \<Rightarrow> bool \<times> u8 list \<times> 'u"

text \<open>
  The body of the sector loop of \<^verbatim>\<open>jedec_restore_stream\<close>. The result is the error of
  the \<^verbatim>\<open>return false\<close> taken, if any, the state of the source and the bus.
\<close>

definition restore_sector ::
  "jedec_chip_t \<Rightarrow> jedec_restore_opts_t \<Rightarrow> 'u jedec_source_cb \<Rightarrow> u32 \<Rightarrow> u32 \<Rightarrow> 'u \<Rightarrow> 'd bus
   \<Rightarrow> (restore_error option \<times> 'u \<times> 'd bus) option"
where
  "restore_sector chip opts src end base user b =
     (let sector = erase_gran opts;
          want = (if base + sector > end then end - base else sector);
          (ok, buf, user') = src user (unat want) base
      in if \<not> ok \<or> length buf \<noteq> unat want then Some (Some ErrSource, user', b)
         else if skip_erase_when_all_ff opts \<and> all_ff buf (unat want) then Some (None, user', b)
         else do {
           b1 \<leftarrow> erase_4k chip base b;
           b2 \<leftarrow> program_pages chip opts base buf want 0 b1;
           if verify_after_write opts then
             (let (rd_ok, vbuf, b3) = jedec_read_chunk chip base (unat want) b2
              in if \<not> rd_ok then Some (Some ErrReadback, user', printf (LogReadbackFailed base) b3)
                 else if take (unat want) buf \<noteq> take (unat want) vbuf then
                   (let bad = first_bad buf vbuf (unat want) 0
                    in Some (Some ErrVerify, user',
                             printf (LogVerifyMismatch base bad (buf ! bad) (vbuf ! bad)) b3))
                 else Some (None, user', b3))
           else Some (None, user', b2)
         })"

partial_function (option) restore_loop ::
  "jedec_chip_t \<Rightarrow> jedec_restore_opts_t \<Rightarrow> 'u jedec_source_cb \<Rightarrow> u32 \<Rightarrow> u32 \<Rightarrow> 'u \<Rightarrow> 'd bus
   \<Rightarrow> (restore_error option \<times> 'u \<times> 'd bus) option"
where
  "restore_loop chip opts src end base user b =
     (if base < end then
        do {
          r \<leftarrow> restore_sector chip opts src end base user b;
          (case r of
             (Some e, user', b') \<Rightarrow> Some (Some e, user', b')
           | (None, user', b') \<Rightarrow> restore_loop chip opts src end (base + erase_gran opts) user' b')
        }
      else Some (None, user, b))"

declare restore_loop.simps [code]

text \<open>
  \<^verbatim>\<open>jedec_restore_stream\<close>; \<open>heap_ok\<close> tells whether both \<^verbatim>\<open>malloc(sector)\<close> succeed.
  The C function returns \<^verbatim>\<open>true\<close> exactly when the error is \<open>None\<close>.
\<close>

definition default_opts :: "jedec_chip_t \<Rightarrow> jedec_restore_opts_t" where
  "default_opts chip =
     \<lparr>verify_after_write = True, skip_erase_when_all_ff = True, skip_prog_when_all_ff = True,
      program_chunk = (if page_size chip \<noteq> 0 then page_size chip else 256),
      erase_gran = (if sector_size chip \<noteq> 0 then sector_size chip else 4096)\<rparr>"

definition jedec_restore_stream ::
  "jedec_chip_t \<Rightarrow> u32 \<Rightarrow> u32 \<Rightarrow> 'u jedec_source_cb option \<Rightarrow> 'u \<Rightarrow> jedec_restore_opts_t option
   \<Rightarrow> bool \<Rightarrow> 'd bus \<Rightarrow> (restore_error option \<times> 'u \<times> 'd bus) option"
where
  "jedec_restore_stream chip offset len src_in user opts_in heap_ok b =
     (case src_in of
        None \<Rightarrow> Some (Some ErrNoSource, user, b)
      | Some src \<Rightarrow>
          (let opts = (case opts_in of None \<Rightarrow> default_opts chip | Some opts' \<Rightarrow> opts')
           in if \<not> heap_ok then Some (Some ErrNoMemory, user, b)
              else do {
                (_, b1) \<leftarrow> jedec_try_unprotect chip b;
                restore_loop chip opts src (offset + len) offset user b1
              }))"

section \<open>Backup\<close>

type_synonym 'u jedec_sink_cb = "'u \<Rightarrow> u8 list \<Rightarrow> u32 \<Rightarrow> bool \<times> 'u"

text \<open>
  The chunk loop of \<^verbatim>\<open>jedec_backup_stream\<close>; \<^verbatim>\<open>chunk\<close> and \<^verbatim>\<open>n\<close> are of type
  \<^verbatim>\<open>size_t\<close>, 32 bits wide on the RP2040, so \<^verbatim>\<open>a+n\<close> wraps at 2^32.
  \<^verbatim>\<open>
  for (uint32_t a = offset; a < end; ){
      size_t n = chunk; if (a+n> end) n = end-a;
      if (!jedec_read_chunk(chip,a,buf,n)){ free(buf); return false; }
      if (!sink(buf,n,a,user))           { free(buf); return false; }
      a += n; tight_loop_contents();
  }\<close>
\<close>

partial_function (option) backup_loop ::
  "jedec_chip_t \<Rightarrow> 'u jedec_sink_cb \<Rightarrow> u32 \<Rightarrow> u32 \<Rightarrow> u32 \<Rightarrow> 'u \<Rightarrow> 'd bus \<Rightarrow> (bool \<times> 'u \<times> 'd bus) option"
where
  "backup_loop chip sink chunk end a user b =
     (if a < end then
        (let n = (if a + chunk > end then end - a else chunk);
             (rd_ok, buf, b1) = jedec_read_chunk chip a (unat n) b
         in if \<not> rd_ok then Some (False, user, b1)
            else (let (cont, user') = sink user buf a
                  in if \<not> cont then Some (False, user', b1)
                     else backup_loop chip sink chunk end (a + n) user' b1))
      else Some (True, user, b))"

declare backup_loop.simps [code]

definition jedec_backup_stream ::
  "jedec_chip_t \<Rightarrow> u32 \<Rightarrow> u32 \<Rightarrow> u32 \<Rightarrow> 'u jedec_sink_cb option \<Rightarrow> 'u \<Rightarrow> bool \<Rightarrow> 'd bus
   \<Rightarrow> (bool \<times> 'u \<times> 'd bus) option"
where
  "jedec_backup_stream chip offset len chunk sink_in user heap_ok b =
     (case sink_in of
        None \<Rightarrow> Some (False, user, b)
      | Some sink \<Rightarrow>
          if chunk = 0 then Some (False, user, b)
          else if \<not> heap_ok then Some (False, user, b)
          else backup_loop chip sink chunk (offset + len) offset user b)"


section \<open>A simulated NOR flash chip\<close>

text \<open>
  The chip used to run the drivers on concrete inputs. It answers the JEDEC id, SFDP,
  status and read commands, and executes write enable, status register write, sector
  erase and page program. \<open>m_sr_locked\<close> makes it ignore status register writes,
  \<open>m_busy\<close> is the number of status reads that still show the busy bit, \<open>m_stuck\<close> keeps
  the busy bit set for ever, \<open>m_op_busy\<close> is the number of busy status reads after an
  erase, a program or a status register write, \<open>m_sector\<close> is the size of the sector that
  command \<^verbatim>\<open>0x20\<close> erases, and \<open>m_bad\<close> is a defective cell that always reads as
  \<^verbatim>\<open>0x00\<close>.
\<close>

record mock =
  m_id :: "u8 list"
  m_sfdp :: "u8 list"
  m_mem :: "u8 list"
  m_sr1 :: u8
  m_sr2 :: u8
  m_sr3 :: u8
  m_wel :: bool
  m_a4 :: bool
  m_sr_locked :: bool
  m_busy :: nat
  m_stuck :: bool
  m_op_busy :: nat
  m_sector :: nat
  m_bad :: "nat option"

definition mock_alen :: "mock \<Rightarrow> nat" where
  "mock_alen d = (if m_a4 d then 4 else 3)"

definition mock_cell :: "mock \<Rightarrow> nat \<Rightarrow> u8" where
  "mock_cell d a =
     (if m_mem d = [] then 0xFF
      else if m_bad d = Some (a mod length (m_mem d)) then 0x00
      else m_mem d ! (a mod length (m_mem d)))"

definition mock_status :: "mock \<Rightarrow> u8" where
  "mock_status d =
     (m_sr1 d AND 0xFC) OR (if m_wel d then 0x02 else 0x00) OR
     (if m_stuck d \<or> m_busy d > 0 then 0x01 else 0x00)"

definition mock_respond :: "mock \<Rightarrow> u8 list \<Rightarrow> nat \<Rightarrow> u8" where
  "mock_respond d tx i =
     (case tx of
        [] \<Rightarrow> 0xFF
      | op # args \<Rightarrow>
          if op = 0x9F then (if i < length (m_id d) then m_id d ! i else 0xFF)
          else if op = 0x5A then
            (let a = be_value (take 3 args) + i
             in if a < length (m_sfdp d) then m_sfdp d ! a else 0xFF)
          else if op = 0x05 then mock_status d
          else if op = 0x35 then m_sr2 d
          else if op = 0x15 then m_sr3 d
          else if op = 0x03 \<or> op = 0x0B then mock_cell d (be_value (take (mock_alen d) args) + i)
          else 0xFF)"

definition mock_erase :: "mock \<Rightarrow> nat \<Rightarrow> u8 list" where
  "mock_erase d a =
     map (\<lambda>i. if a - a mod m_sector d \<le> i \<and> i < a - a mod m_sector d + m_sector d
               then 0xFF else m_mem d ! i) [0..<length (m_mem d)]"

definition mock_program :: "mock \<Rightarrow> nat \<Rightarrow> u8 list \<Rightarrow> u8 list" where
  "mock_program d a data =
     map (\<lambda>i. if a \<le> i \<and> i < a + length data then m_mem d ! i AND data ! (i - a)
               else m_mem d ! i) [0..<length (m_mem d)]"

definition mock_after :: "mock \<Rightarrow> u8 list \<Rightarrow> nat \<Rightarrow> mock" where
  "mock_after d tx n =
     (case tx of
        [] \<Rightarrow> d
      | op # args \<Rightarrow>
          if op = 0x06 then d\<lparr>m_wel := True\<rparr>
          else if op = 0x05 then d\<lparr>m_busy := m_busy d - 1\<rparr>
          else if op = 0xB7 then d\<lparr>m_a4 := True\<rparr>
          else if op = 0x01 then
            (if m_wel d \<and> \<not> m_sr_locked d \<and> args \<noteq> []
             then d\<lparr>m_sr1 := hd args AND 0xFC,
                    m_sr2 := (if length args > 1 then args ! 1 else m_sr2 d),
                    m_wel := False, m_busy := m_op_busy d\<rparr>
             else d\<lparr>m_wel := False\<rparr>)
          else if op = 0x20 then
            (if m_wel d
             then d\<lparr>m_mem := mock_erase d (be_value (take (mock_alen d) args)),
                    m_wel := False, m_busy := m_op_busy d\<rparr>
             else d)
          else if op = 0x02 then
            (if m_wel d
             then d\<lparr>m_mem := mock_program d (be_value (take (mock_alen d) args))
                                  (drop (mock_alen d) args),
                    m_wel := False, m_busy := m_op_busy d\<rparr>
             else d)
          else d)"

definition mock_bus :: "mock \<Rightarrow> mock bus" where
  "mock_bus d =
     \<lparr>respond = mock_respond, after = mock_after, duration = (\<lambda>d tx n. 1),
      dev = d, now = 0, trace = [], console = []\<rparr>"

definition mock_chip :: "u8 list \<Rightarrow> mock" where
  "mock_chip mem =
     \<lparr>m_id = [0xEF, 0x40, 0x18], m_sfdp = [], m_mem = mem,
      m_sr1 = 0, m_sr2 = 0, m_sr3 = 0, m_wel = False, m_a4 = False, m_sr_locked = False,
      m_busy = 0, m_stuck = False, m_op_busy = 2, m_sector = 4, m_bad = None\<rparr>"


section \<open>Concrete chips and inputs\<close>

text \<open>A chip whose SFDP space holds the signature followed by the given bytes.\<close>

definition sfdp_chip :: "u8 list \<Rightarrow> mock" where
  "sfdp_chip bytes = mock_chip []\<lparr>m_sfdp := [0x53, 0x46, 0x44, 0x50] @ bytes\<rparr>"

text \<open>A chip without SFDP whose JEDEC id ends with the given capacity code.\<close>

definition id_chip :: "u8 \<Rightarrow> mock" where
  "id_chip code = mock_chip []\<lparr>m_id := [0xEF, 0x40, code]\<rparr>"

text \<open>
  \<open>busy_for k b\<close>: polled by \<^verbatim>\<open>wait_busy\<close> from \<open>b\<close>, the chip shows the busy bit on the
  first \<open>k\<close> status reads and shows it clear on the next one.
\<close>

primrec busy_for :: "nat \<Rightarrow> 'd bus \<Rightarrow> bool" where
  "busy_for 0 b = (fst (rd_status1 b) AND 0x01 = 0)"
| "busy_for (Suc k) b =
     (fst (rd_status1 b) AND 0x01 \<noteq> 0 \<and> busy_for k (sleep_ms 1 (snd (rd_status1 b))))"

text \<open>A chip whose busy bit never clears.\<close>

definition stuck_chip :: mock where
  "stuck_chip = mock_chip []\<lparr>m_stuck := True\<rparr>"

text \<open>A chip that shows the busy bit on its next three status reads.\<close>

definition slow_chip :: mock where
  "slow_chip = mock_chip []\<lparr>m_busy := 3\<rparr>"

text \<open>
  A chip with the given status registers that completes every operation at once;
  \<open>locked\<close> makes it ignore status register writes.
\<close>

definition sr_chip :: "u8 \<Rightarrow> u8 \<Rightarrow> u8 \<Rightarrow> bool \<Rightarrow> mock" where
  "sr_chip s1 s2 s3 locked =
     mock_chip []\<lparr>m_sr1 := s1, m_sr2 := s2, m_sr3 := s3, m_sr_locked := locked, m_op_busy := 0\<rparr>"

text \<open>The profile of a small chip with 3-byte addresses, 2-byte pages and 4-byte sectors.\<close>

definition small_chip :: jedec_chip_t where
  "small_chip =
     \<lparr>manuf_id = 0xEF, mem_type = 0x40, capacity_id = 0x18, total_bytes = 8,
      has_sfdp = False, use_4byte_addr = False, page_size = 2, sector_size = 4,
      read_cmd = 0x03, dummy_cycles = 0, effective_spi_hz = 1000000\<rparr>"

text \<open>
  A flash chip with the given contents that completes every operation at once; \<open>bad\<close> is
  its defective cell, if any.
\<close>

definition flash_chip :: "u8 list \<Rightarrow> nat option \<Rightarrow> mock" where
  "flash_chip mem bad = mock_chip mem\<lparr>m_op_busy := 0, m_bad := bad\<rparr>"

text \<open>Restore options for the small chip: verify and skip enabled, 2-byte pages, 4-byte sectors.\<close>

definition small_opts :: jedec_restore_opts_t where
  "small_opts =
     \<lparr>verify_after_write = True, skip_erase_when_all_ff = True, skip_prog_when_all_ff = True,
      program_chunk = 2, erase_gran = 4\<rparr>"

text \<open>A source that serves an image held in memory, and a source of erased bytes only.\<close>

definition list_source :: "u8 list \<Rightarrow> unit jedec_source_cb" where
  "list_source img u want off = (True, take want (drop (unat off) img), u)"

definition ff_source :: "unit jedec_source_cb" where
  "ff_source u want off = (True, replicate want 0xFF, u)"

text \<open>A sink that records its invocations and refuses the one at offset \<open>stop\<close>.\<close>

definition rec_sink :: "u32 option \<Rightarrow> (u32 \<times> u8 list) list jedec_sink_cb" where
  "rec_sink stop calls data off = (Some off \<noteq> stop, calls @ [(off, data)])"

section \<open>The chunks a backup is expected to deliver\<close>

text \<open>
  From the specification: the chunks cover \<open>[offset, offset + len)\<close> in increasing order,
  \<open>chunk\<close> bytes each but for a possibly shorter last one. A chunk is the pair of its
  start and its length.
\<close>

definition chunk_ranges :: "nat \<Rightarrow> nat \<Rightarrow> nat \<Rightarrow> (nat \<times> nat) list" where
  "chunk_ranges offset len chunk =
     map (\<lambda>k. (offset + k * chunk, min chunk (len - k * chunk)))
         [0..<(len + chunk - 1) div chunk]"

text \<open>
  From the specification: each chunk is read and handed to the sink; a read error or a
  sink that returns false ends the backup with failure and no further sink invocation.
\<close>

fun feed_chunks ::
  "jedec_chip_t \<Rightarrow> 'u jedec_sink_cb \<Rightarrow> (nat \<times> nat) list \<Rightarrow> 'u \<Rightarrow> 'd bus \<Rightarrow> bool \<times> 'u \<times> 'd bus"
where
  "feed_chunks chip sink [] user b = (True, user, b)"
| "feed_chunks chip sink ((a, n) # rest) user b =
     (let (rd_ok, buf, b1) = jedec_read_chunk chip (of_nat a) n b
      in if \<not> rd_ok then (False, user, b1)
         else (let (cont, user') = sink user buf (of_nat a)
               in if \<not> cont then (False, user', b1)
                  else feed_chunks chip sink rest user' b1))"

section \<open>The derived 50 MHz table of the read benchmark (read.c)\<close>

text \<open>
  The three index searches over the achieved clocks, in MHz. The clocks are
  \<^verbatim>\<open>(int)(actual / 1000000u)\<close> of a 32-bit baud rate, so between 0 and 4294, and no
  \<^verbatim>\<open>int\<close> operation below leaves the 32-bit range; the result is an index or \<open>-1\<close>.
  \<^verbatim>\<open>
  int idx = -1, best = -100000;
  for (int i = 0; i < n; i++) {
      if (mhz[i] < 50 && mhz[i] > best) { best = mhz[i]; idx = i; }
  }
  return idx;\<close>
\<close>

function find_best_below_loop :: "int list \<Rightarrow> nat \<Rightarrow> nat \<Rightarrow> int \<Rightarrow> int \<Rightarrow> int" where
  "find_best_below_loop mhz n i idx best =
     (if i < n then
        (if mhz ! i < 50 \<and> mhz ! i > best
         then find_best_below_loop mhz n (i + 1) (int i) (mhz ! i)
         else find_best_below_loop mhz n (i + 1) idx best)
      else idx)"
  by pat_completeness auto
termination
  by (relation "measure (\<lambda>(mhz, n, i, idx, best). n - i)") auto

declare find_best_below_loop.simps [simp del]

definition find_best_below :: "int list \<Rightarrow> nat \<Rightarrow> int" where
  "find_best_below mhz n = find_best_below_loop mhz n 0 (- 1) (- 100000)"

text \<open>
  \<^verbatim>\<open>
  int idx = -1, best = 1000000;
  for (int i = 0; i < n; i++) {
      if (mhz[i] > 50 && mhz[i] < best) { best = mhz[i]; idx = i; }
  }
  return idx;\<close>
\<close>

function find_best_above_loop :: "int list \<Rightarrow> nat \<Rightarrow> nat \<Rightarrow> int \<Rightarrow> int \<Rightarrow> int" where
  "find_best_above_loop mhz n i idx best =
     (if i < n then
        (if mhz ! i > 50 \<and> mhz ! i < best
         then find_best_above_loop mhz n (i + 1) (int i) (mhz ! i)
         else find_best_above_loop mhz n (i + 1) idx best)
      else idx)"
  by pat_completeness auto
termination
  by (relation "measure (\<lambda>(mhz, n, i, idx, best). n - i)") auto

declare find_best_above_loop.simps [simp del]

definition find_best_above :: "int list \<Rightarrow> nat \<Rightarrow> int" where
  "find_best_above mhz n = find_best_above_loop mhz n 0 (- 1) 1000000"

text \<open>
  \<^verbatim>\<open>
  int idx = -1; int bestd = 1000000;
  for (int i = 0; i < n; i++) {
      int d = abs(mhz[i] - 50);
      if (d < bestd) { bestd = d; idx = i; }
  }
  return idx;\<close>
\<close>

function find_closest_loop :: "int list \<Rightarrow> nat \<Rightarrow> nat \<Rightarrow> int \<Rightarrow> int \<Rightarrow> int" where
  "find_closest_loop mhz n i idx bestd =
     (if i < n then
        (let d = \<bar>mhz ! i - 50\<bar>
         in if d < bestd
            then find_closest_loop mhz n (i + 1) (int i) d
            else find_closest_loop mhz n (i + 1) idx bestd)
      else idx)"
  by pat_completeness auto
termination
  by (relation "measure (\<lambda>(mhz, n, i, idx, bestd). n - i)") auto

declare find_closest_loop.simps [simp del]

definition find_closest :: "int list \<Rightarrow> nat \<Rightarrow> int" where
  "find_closest mhz n = find_closest_loop mhz n 0 (- 1) 1000000"

text \<open>
  The throughputs are of type \<^verbatim>\<open>double\<close>. Their arithmetic is a parameter of the model:
  the conversion from \<^verbatim>\<open>int\<close>, the constants \<^verbatim>\<open>50.0\<close>, \<^verbatim>\<open>0.5\<close>, \<^verbatim>\<open>1e-9\<close>, \<^verbatim>\<open>0\<close> and
  \<^verbatim>\<open>1.0\<close>, the four operations, \<^verbatim>\<open>fabs\<close> and the two comparisons, over any type \<open>'r\<close>.
\<close>

record 'r arith =
  d_cast :: "int \<Rightarrow> 'r"
  c_50 :: 'r
  c_half :: 'r
  c_eps :: 'r
  c_0 :: 'r
  c_1 :: 'r
  d_add :: "'r \<Rightarrow> 'r \<Rightarrow> 'r"
  d_sub :: "'r \<Rightarrow> 'r \<Rightarrow> 'r"
  d_mul :: "'r \<Rightarrow> 'r \<Rightarrow> 'r"
  dvd_d :: "'r \<Rightarrow> 'r \<Rightarrow> 'r"
  d_fabs :: "'r \<Rightarrow> 'r"
  less_d :: "'r \<Rightarrow> 'r \<Rightarrow> bool"
  le_d :: "'r \<Rightarrow> 'r \<Rightarrow> bool"

text \<open>The arithmetic of the real numbers, without rounding.\<close>

definition exact_arith :: "real arith" where
  "exact_arith =
     \<lparr>d_cast = real_of_int, c_50 = 50, c_half = 1 / 2, c_eps = 1 / 10 ^ 9, c_0 = 0, c_1 = 1,
      d_add = (+), d_sub = (-), d_mul = (*), dvd_d = (/), d_fabs = abs, less_d = (<), le_d = (\<le>)\<rparr>"

text \<open>
  Of \<^verbatim>\<open>read_stats_t\<close> the derivation reads the fields \<^verbatim>\<open>avg_us\<close> and \<^verbatim>\<open>mb_s\<close> only; a
  capture holds one row of statistics for each of the five read sizes.
\<close>

record 'r read_stats_t =
  avg_us :: 'r
  mb_s :: 'r

record 'r read_bench_capture_t =
  actual_mhz :: int
  rows :: "'r read_stats_t list"
  filled :: bool

text \<open>
  The two ways to a throughput at 50 MHz:
  \<^verbatim>\<open>
  if (fabs(f_hi - f_lo) < 1e-9) {
      mb50 = (mb_lo + mb_hi) * 0.5;
  } else {
      double t = (50.0 - f_lo) / (f_hi - f_lo);
      mb50 = mb_lo + t * (mb_hi - mb_lo);
  }\<close>
  and \<^verbatim>\<open>mb50 = mb_c * (50.0 / f_c);\<close>
\<close>

definition interp_50 :: "'r arith \<Rightarrow> 'r \<Rightarrow> 'r \<Rightarrow> 'r \<Rightarrow> 'r \<Rightarrow> 'r" where
  "interp_50 ar f_lo f_hi mb_lo mb_hi =
     (if less_d ar (d_fabs ar (d_sub ar f_hi f_lo)) (c_eps ar)
      then d_mul ar (d_add ar mb_lo mb_hi) (c_half ar)
      else (let t = dvd_d ar (d_sub ar (c_50 ar) f_lo) (d_sub ar f_hi f_lo)
            in d_add ar mb_lo (d_mul ar t (d_sub ar mb_hi mb_lo))))"

definition scale_50 :: "'r arith \<Rightarrow> 'r \<Rightarrow> 'r \<Rightarrow> 'r" where
  "scale_50 ar f_c mb_c = d_mul ar mb_c (dvd_d ar (c_50 ar) f_c)"

text \<open>
  The body of the loop over the read sizes: the derived throughput \<^verbatim>\<open>mb50\<close> of size
  \<open>si\<close>, and the row printed for it, which holds the average time of the closest capture
  scaled by \<^verbatim>\<open>mb_base / mb50\<close> and \<^verbatim>\<open>mb50\<close> itself.
  \<^verbatim>\<open>
  if (idx_lo >= 0 && idx_hi >= 0) { ... interpolate ... }
  else { int ic = idx_closest; ... mb50 = mb_c * (50.0 / f_c); }
  int ib = idx_closest;
  double mb_base = used[ib]->rows[si].stats.mb_s;
  double scale_time = (mb_base <= 0 || mb50 <= 0) ? 1.0 : (mb_base / mb50);
  der.avg_us *= scale_time; der.mb_s = mb50;\<close>
\<close>

definition mb50_at ::
  "'r arith \<Rightarrow> int list \<Rightarrow> 'r read_bench_capture_t list \<Rightarrow> int \<Rightarrow> int \<Rightarrow> int \<Rightarrow> nat \<Rightarrow> 'r"
where
  "mb50_at ar actuals used idx_lo idx_hi idx_closest si =
     (if idx_lo \<ge> 0 \<and> idx_hi \<ge> 0
      then interp_50 ar (d_cast ar (actuals ! nat idx_lo)) (d_cast ar (actuals ! nat idx_hi))
             (mb_s (rows (used ! nat idx_lo) ! si)) (mb_s (rows (used ! nat idx_hi) ! si))
      else scale_50 ar (d_cast ar (actuals ! nat idx_closest))
             (mb_s (rows (used ! nat idx_closest) ! si)))"

definition derived_row ::
  "'r arith \<Rightarrow> 'r read_bench_capture_t list \<Rightarrow> int \<Rightarrow> nat \<Rightarrow> 'r \<Rightarrow> 'r read_stats_t"
where
  "derived_row ar used idx_closest si mb50 =
     (let sb = rows (used ! nat idx_closest) ! si;
          mb_base = mb_s sb;
          scale_time = (if le_d ar mb_base (c_0 ar) \<or> le_d ar mb50 (c_0 ar) then c_1 ar
                        else dvd_d ar mb_base mb50)
      in \<lparr>avg_us = d_mul ar (avg_us sb) scale_time, mb_s = mb50\<rparr>)"

text \<open>
  \<^verbatim>\<open>read_derive_and_print_50\<close>: the array \<^verbatim>\<open>caps\<close> with its length \<^verbatim>\<open>n_caps\<close> is the list
  \<open>caps\<close>, and the argument \<^verbatim>\<open>req_mhz\<close> is not read. The result is the rows printed, one for each read size, and the value stored in
  \<^verbatim>\<open>g_derived_50mhz_speed\<close>, which is \<^verbatim>\<open>mb50\<close> of the sector size, index 2. Without a filled
  capture nothing is derived and the speed stored is 0. The local arrays hold eight
  entries; more filled captures, or no index from \<^verbatim>\<open>find_closest\<close>, make the C function
  access an array out of bounds: \<open>None\<close>.
\<close>

definition read_derive_and_print_50 ::
  "'r arith \<Rightarrow> 'r read_bench_capture_t list \<Rightarrow> ('r read_stats_t list \<times> 'r) option"
where
  "read_derive_and_print_50 ar caps =
     (let used = filter filled caps;
          actuals = map actual_mhz used;
          m = length used
      in if m > 8 then None
         else if m = 0 then Some ([], c_0 ar)
         else (let idx_lo = find_best_below actuals m;
                   idx_hi = find_best_above actuals m;
                   idx_closest = find_closest actuals m
               in if idx_closest < 0 then None
                  else Some (map (\<lambda>si. derived_row ar used idx_closest si
                                          (mb50_at ar actuals used idx_lo idx_hi idx_closest si))
                                 [0..<5],
                             mb50_at ar actuals used idx_lo idx_hi idx_closest 2)))"

text \<open>A filled capture with the same throughput for every read size.\<close>

definition flat_capture :: "int \<Rightarrow> real \<Rightarrow> real read_bench_capture_t" where
  "flat_capture mhz mb =
     \<lparr>actual_mhz = mhz, rows = replicate 5 \<lparr>avg_us = 1, mb_s = mb\<rparr>, filled = True\<rparr>"

section \<open>Verification: command headers\<close>

lemma be_value_3_nat:
  "((n::nat) div 65536 mod 256 * 256 + n div 256 mod 256) * 256 + n mod 256 = n mod 16777216"
proof -
  have A: "n mod 16777216 = 256 * ((n div 256) mod 65536) + n mod 256"
    using mod_mult2_eq [of n 256 65536] by simp
  have B: "(n div 256) mod 65536 = 256 * (n div 65536 mod 256) + n div 256 mod 256"
    using mod_mult2_eq [of "n div 256" 256 256] div_mult2_eq [of n 256 256] by simp
  show ?thesis unfolding A B by simp
qed

lemma be_value_4_nat_eq:
  "(((n::nat) div 16777216 mod 256 * 256 + n div 65536 mod 256) * 256 + n div 256 mod 256) * 256
     + n mod 256 = n mod 4294967296"
proof -
  have A: "n mod 4294967296 = 65536 * ((n div 65536) mod 65536) + n mod 65536"
    using mod_mult2_eq [of n 65536 65536] by simp
  have B: "(n div 65536) mod 65536 = 256 * (n div 16777216 mod 256) + n div 65536 mod 256"
    using mod_mult2_eq [of "n div 65536" 256 256] div_mult2_eq [of n 65536 256] by simp
  have C: "n mod 65536 = 256 * (n div 256 mod 256) + n mod 256"
    using mod_mult2_eq [of n 256 256] by simp
  show ?thesis unfolding A B C by simp
qed

lemma and_ff: "(x :: u32) AND 0xFF = take_bit 8 x"
proof -
  have "(0xFF :: u32) = mask 8" by (simp add: mask_eq_exp_minus_1)
  then show ?thesis by (simp add: take_bit_eq_mask)
qed

lemma ucast_and_ff: "(ucast ((x :: u32) AND 0xFF) :: u8) = ucast x"
  unfolding and_ff by (rule bit_word_eqI) (simp add: bit_simps)

lemma unat_byte0: "unat (ucast (a :: u32) :: u8) = unat a mod 256"
  by (simp add: unsigned_ucast_eq take_bit_eq_mod)

lemma unat_byte: "unat (ucast (drop_bit k (a :: u32)) :: u8) = unat a div 2 ^ k mod 256"
proof -
  have "unat (drop_bit k a) = drop_bit k (unat a)" by (rule unat_drop_bit_eq)
  also have "\<dots> = unat a div 2 ^ k" by (rule drop_bit_eq_div)
  finally show ?thesis by (simp only: unat_byte0)
qed

lemma be_value_be3:
  "be_value [ucast (drop_bit 16 a), ucast (drop_bit 8 a), ucast (a :: u32)] = unat a mod 2 ^ 24"
  using be_value_3_nat [of "unat a"]
  unfolding be_value_def by (simp only: foldl.simps unat_byte) (simp add: unat_byte0)

lemma unat_u32_mod: "unat (a :: u32) mod 4294967296 = unat a"
  using unsigned_less [of a, where 'a = nat] by simp

lemma be_value_be4:
  "be_value [ucast (drop_bit 24 a), ucast (drop_bit 16 a), ucast (drop_bit 8 a), ucast (a :: u32)] = unat a"
proof -
  have "be_value [ucast (drop_bit 24 a), ucast (drop_bit 16 a), ucast (drop_bit 8 a), ucast a]
      = ((unat a div 2 ^ 24 mod 256 * 256 + unat a div 2 ^ 16 mod 256) * 256
          + unat a div 2 ^ 8 mod 256) * 256 + unat a mod 256"
    unfolding be_value_def by (simp only: foldl.simps unat_byte) (simp only: unat_byte0, simp)
  also have "\<dots> = unat a mod 4294967296"
    using be_value_4_nat_eq [of "unat a"] by simp
  finally show ?thesis by (simp only: unat_u32_mod)
qed

lemma addr_hdr_length: "length (addr_hdr chip addr) = (if use_4byte_addr chip then 4 else 3)"
  by (simp add: addr_hdr_def)

lemma addr_hdr_value:
  "be_value (addr_hdr chip addr) = (if use_4byte_addr chip then unat addr else unat addr mod 2 ^ 24)"
  unfolding addr_hdr_def ucast_and_ff using be_value_be3 [of addr] be_value_be4 [of addr]
  by simp


text \<open>
  C2 (amended). The JEDEC module keeps the opcode in both addressing modes: the read
  command of the profile, \<^verbatim>\<open>0x20\<close> for the 4K erase and \<^verbatim>\<open>0x02\<close> for the page program
  are followed by exactly three big-endian address bytes when \<open>use_4byte_addr\<close> is false
  and by exactly four when it is true (the chip was switched with \<^verbatim>\<open>0xB7\<close> at probe
  time), and the fast read \<^verbatim>\<open>0x0B\<close> appends one dummy byte. The headers built by
  flash_backup_restore.c use the opcode pairs \<^verbatim>\<open>0x0B/0x0C\<close>, \<^verbatim>\<open>0x02/0x12\<close>,
  \<^verbatim>\<open>0x20/0x21\<close> and \<^verbatim>\<open>0xD8/0xDC\<close>: the first opcode with three big-endian address
  bytes, the second with four.
\<close>

theorem address_header_encoding:
  "read_chunk_hdr chip addr =
     read_cmd chip # addr_hdr chip addr @ (if read_cmd chip = 0x0B then [0x00] else [])
   \<and> erase_4k_hdr chip addr = 0x20 # addr_hdr chip addr
   \<and> prog_page_hdr chip addr = 0x02 # addr_hdr chip addr
   \<and> length (addr_hdr chip addr) = (if use_4byte_addr chip then 4 else 3)
   \<and> be_value (addr_hdr chip addr) = (if use_4byte_addr chip then unat addr else unat addr mod 2 ^ 24)
   \<and> fbr_fast_read_cmd u addr = cmd_addr u 0x0B 0x0C addr @ [0x00]
   \<and> fbr_page_program_cmd u addr = cmd_addr u 0x02 0x12 addr
   \<and> fbr_sector_erase_cmd u addr = cmd_addr u 0x20 0x21 addr
   \<and> fbr_block_erase_cmd u addr = cmd_addr u 0xD8 0xDC addr
   \<and> hd (cmd_addr u op3 op4 addr) = (if u then op4 else op3)
   \<and> length (tl (cmd_addr u op3 op4 addr)) = (if u then 4 else 3)
   \<and> be_value (tl (cmd_addr u op3 op4 addr)) = (if u then unat addr else unat addr mod 2 ^ 24)"
  using be_value_be3 [of addr] be_value_be4 [of addr]
  by (simp add: read_chunk_hdr_def erase_4k_hdr_def prog_page_hdr_def addr_hdr_length
      addr_hdr_value fbr_fast_read_cmd_def fbr_page_program_cmd_def fbr_sector_erase_cmd_def
      fbr_block_erase_cmd_def cmd_addr_def)

text \<open>
  C2 as stated fails: a chip probed as 32 MiB (capacity id \<^verbatim>\<open>0x19\<close>) has
  \<open>use_4byte_addr\<close> set, and its 4K erase header at address \<^verbatim>\<open>0x01000000\<close> starts with
  \<^verbatim>\<open>0x20\<close>, not with \<^verbatim>\<open>0x21\<close>.
\<close>

theorem erase_4k_opcode_counterexample:
  "use_4byte_addr (fst (snd (jedec_probe 1000000 (mock_bus (mock_chip []\<lparr>m_id := [0xEF, 0x40, 0x19]\<rparr>)))))
   \<and> erase_4k_hdr (fst (snd (jedec_probe 1000000 (mock_bus (mock_chip []\<lparr>m_id := [0xEF, 0x40, 0x19]\<rparr>)))))
         0x01000000 = [0x20, 0x01, 0x00, 0x00, 0x00]"
  by code_simp


section \<open>Verification: size detection and probing\<close>






lemma unat_code_less: "c \<le> (0x1F :: u8) \<Longrightarrow> unat c < 32"
  by (simp add: word_le_nat_alt)

lemma push_bit_code: "n < 32 \<Longrightarrow> unat (push_bit n 1 :: u32) = 2 ^ n"
proof -
  assume n: "n < 32"
  have "unat (word_of_nat (2 ^ n) :: u32) = 2 ^ n mod 2 ^ 32"
    by (simp only: unat_of_nat len_bit0 len_num1) simp
  moreover have "(2 :: nat) ^ n < 2 ^ 32"
    using n by (rule power_strict_increasing) simp
  ultimately show ?thesis by (simp add: push_bit_of_1)
qed


lemma spi_xfer_length: "length (fst (spi_xfer b tx n)) = n"
  by (simp add: spi_xfer_def)

lemma list4_eq_iff:
  "length xs = 4 \<Longrightarrow> (xs = [a, b, c, d]) = (xs ! 0 = a \<and> xs ! 1 = b \<and> xs ! 2 = c \<and> xs ! 3 = d)"
  by (cases xs; cases "tl xs"; cases "tl (tl xs)"; cases "tl (tl (tl xs))") auto

lemma sig_check:
  "(fst (spi_xfer b tx 4) ! 0 = 0x53 \<and> fst (spi_xfer b tx 4) ! 1 = 0x46 \<and>
    fst (spi_xfer b tx 4) ! 2 = 0x44 \<and> fst (spi_xfer b tx 4) ! 3 = 0x50)
   = (fst (spi_xfer b tx 4) = [0x53, 0x46, 0x44, 0x50])"
  using list4_eq_iff [OF spi_xfer_length [of b tx 4]] by simp



lemma flash_detect_size_no_sfdp:
  assumes "fst (spi_xfer b [0x5A, 0, 0, 0, 0] 4) \<noteq> [0x53, 0x46, 0x44, 0x50]"
  shows "fst (flash_detect_size b) =
     (if 0x10 \<le> fst (read_jedec_id_local (snd (spi_xfer b [0x5A, 0, 0, 0, 0] 4))) ! 2
         \<and> fst (read_jedec_id_local (snd (spi_xfer b [0x5A, 0, 0, 0, 0] 4))) ! 2 \<le> 0x1F
      then push_bit (unat (fst (read_jedec_id_local (snd (spi_xfer b [0x5A, 0, 0, 0, 0] 4))) ! 2)) 1
      else 0)"
proof -
  have n: "\<not> (fst (spi_xfer b [0x5A, 0, 0, 0, 0] 4) ! 0 = 0x53
       \<and> fst (spi_xfer b [0x5A, 0, 0, 0, 0] 4) ! 1 = 0x46
       \<and> fst (spi_xfer b [0x5A, 0, 0, 0, 0] 4) ! 2 = 0x44
       \<and> fst (spi_xfer b [0x5A, 0, 0, 0, 0] 4) ! 3 = 0x50)"
    using assms by (simp only: sig_check not_False_eq_True)
  have "flash_detect_size b =
     (if 0x10 \<le> fst (read_jedec_id_local (snd (spi_xfer b [0x5A, 0, 0, 0, 0] 4))) ! 2
         \<and> fst (read_jedec_id_local (snd (spi_xfer b [0x5A, 0, 0, 0, 0] 4))) ! 2 \<le> 0x1F
      then (push_bit (unat (fst (read_jedec_id_local (snd (spi_xfer b [0x5A, 0, 0, 0, 0] 4))) ! 2)) 1,
            snd (read_jedec_id_local (snd (spi_xfer b [0x5A, 0, 0, 0, 0] 4))))
      else (0, snd (read_jedec_id_local (snd (spi_xfer b [0x5A, 0, 0, 0, 0] 4)))))"
    using n by (simp only: flash_detect_size_def split_beta Let_def if_False)
  then show ?thesis by (simp only: if_distrib [of fst] fst_conv)
qed






lemma identify_density_flagged: "identify_density 0x8000001A = Some 0"
  by (simp add: identify_density_def)

lemma identify_density_n32_flagged: "identify_density_n32 0x8000001A = Some 0x08000000"
  by (simp add: identify_density_n32_def)

text \<open>
  The comment in \<^verbatim>\<open>flash_detect_size\<close> names the density of the Basic Parameter Table,
  yet the address read is 4, inside the SFDP header, whereas \<^verbatim>\<open>identify\<close> follows the table
  pointer of the parameter header. On a chip whose header reads revision 1.6 and one
  parameter header, the dword decoded is \<^verbatim>\<open>0xFF000106\<close>.
\<close>

lemma flash_detect_size_header_dword:
  "fst (flash_detect_size (mock_bus (sfdp_chip [0x06, 0x01, 0x00, 0xFF]))) = 266338337"
  by code_simp




text \<open>
  C6 (amended). When the SFDP signature is absent, \<^verbatim>\<open>flash_detect_size\<close> returns
  2^code bytes for the capacity codes \<^verbatim>\<open>0x10\<close> to \<^verbatim>\<open>0x1F\<close> and 0, its failure value, for
  every other code. \<^verbatim>\<open>jedec_probe\<close> never fails: it takes 2^code bytes for every code
  below 32 and 512 KiB for every other code.
\<close>

theorem capacity_fallback:
  assumes "fst (spi_xfer b [0x5A, 0, 0, 0, 0] 4) \<noteq> [0x53, 0x46, 0x44, 0x50]"
  shows "unat (fst (flash_detect_size b)) =
           (let code = fst (read_jedec_id_local (snd (spi_xfer b [0x5A, 0, 0, 0, 0] 4))) ! 2
            in if 0x10 \<le> code \<and> code \<le> 0x1F then 2 ^ unat code else 0)
       \<and> fst (jedec_probe hz b) = True
       \<and> unat (total_bytes (fst (snd (jedec_probe hz b)))) =
           (let code = fst (read_jedec_id b) ! 2
            in if code < 32 then 2 ^ unat code else 524288)"
proof -
  have A: "unat (fst (flash_detect_size b)) =
           (let code = fst (read_jedec_id_local (snd (spi_xfer b [0x5A, 0, 0, 0, 0] 4))) ! 2
            in if 0x10 \<le> code \<and> code \<le> 0x1F then 2 ^ unat code else 0)"
    unfolding flash_detect_size_no_sfdp [OF assms] Let_def
    using push_bit_code unat_code_less by simp
  have B: "fst (jedec_probe hz b) = True"
    by (simp add: jedec_probe_def split_beta Let_def)
  have C: "unat (total_bytes (fst (snd (jedec_probe hz b)))) =
           (let code = fst (read_jedec_id b) ! 2
            in if code < 32 then 2 ^ unat code else 524288)"
  proof -
    have "total_bytes (fst (snd (jedec_probe hz b))) =
       (if capacity_from_id (fst (read_jedec_id b) ! 2) = 0 then 512 * 1024
        else capacity_from_id (fst (read_jedec_id b) ! 2))"
      by (simp add: jedec_probe_def split_beta Let_def)
    moreover have "fst (read_jedec_id b) ! 2 < 32 \<Longrightarrow>
        unat (capacity_from_id (fst (read_jedec_id b) ! 2)) = 2 ^ unat (fst (read_jedec_id b) ! 2)"
      using push_bit_code [of "unat (fst (read_jedec_id b) ! 2)"]
      by (simp add: capacity_from_id_def word_less_nat_alt word_le_nat_alt)
    moreover have "\<not> fst (read_jedec_id b) ! 2 < 32 \<Longrightarrow>
        capacity_from_id (fst (read_jedec_id b) ! 2) = 0"
      by (simp add: capacity_from_id_def not_less)
    ultimately show ?thesis
      by (cases "fst (read_jedec_id b) ! 2 < 32") (auto simp: Let_def)
  qed
  show ?thesis using A B C by simp
qed

theorem capacity_fallback_witness:
  "fst (spi_xfer (mock_bus (id_chip 0x16)) [0x5A, 0, 0, 0, 0] 4) \<noteq> [0x53, 0x46, 0x44, 0x50]
   \<and> unat (fst (flash_detect_size (mock_bus (id_chip 0x16)))) = 4194304
   \<and> unat (total_bytes (fst (snd (jedec_probe 1000000 (mock_bus (id_chip 0x16)))))) = 4194304"
proof -
  have h: "fst (spi_xfer (mock_bus (id_chip 0x16)) [0x5A, 0, 0, 0, 0] 4) \<noteq> [0x53, 0x46, 0x44, 0x50]"
    by code_simp
  have c1: "fst (read_jedec_id_local (snd (spi_xfer (mock_bus (id_chip 0x16)) [0x5A, 0, 0, 0, 0] 4))) ! 2 = 0x16"
    by code_simp
  have c2: "fst (read_jedec_id (mock_bus (id_chip 0x16))) ! 2 = 0x16"
    by code_simp
  show ?thesis
    using capacity_fallback [OF h, of 1000000] h by (simp add: c1 c2 Let_def)
qed

text \<open>
  C6 as stated fails: for the capacity code \<^verbatim>\<open>0x20\<close> and no SFDP, \<^verbatim>\<open>jedec_probe\<close>
  returns \<^verbatim>\<open>true\<close> with a profile of 512 KiB, and for the code \<^verbatim>\<open>0x0F\<close> a profile of
  32 KiB.
\<close>

theorem jedec_probe_capacity_counterexample:
  "fst (jedec_probe 1000000 (mock_bus (id_chip 0x20))) = True
   \<and> has_sfdp (fst (snd (jedec_probe 1000000 (mock_bus (id_chip 0x20))))) = False
   \<and> total_bytes (fst (snd (jedec_probe 1000000 (mock_bus (id_chip 0x20))))) = 524288
   \<and> fst (jedec_probe 1000000 (mock_bus (id_chip 0x0F))) = True
   \<and> total_bytes (fst (snd (jedec_probe 1000000 (mock_bus (id_chip 0x0F))))) = 32768"
  by code_simp

section \<open>Verification: busy polling\<close>

lemma wait_busy_never_returns:
  assumes inv: "\<And>b. I b \<Longrightarrow> fst (rd_status1 b) AND 0x01 \<noteq> 0 \<and> I (sleep_ms 1 (snd (rd_status1 b)))"
    and "I b"
  shows "wait_busy b = None"
proof (rule ccontr)
  assume "wait_busy b \<noteq> None"
  then obtain y where y: "wait_busy b = Some y" by auto
  have "\<not> I b"
  proof (rule wait_busy.raw_induct [where P = "\<lambda>b y. \<not> I b"])
    show "wait_busy b = Some y" by (rule y)
  next
    fix wb :: "'a bus \<Rightarrow> 'a bus option" and b0 y0
    assume IH: "\<And>x y. wb x = Some y \<Longrightarrow> \<not> I x"
      and eq: "(case rd_status1 b0 of (v, b') \<Rightarrow>
                 if v AND 0x01 \<noteq> 0 then wb (sleep_ms 1 b') else Some b') = Some y0"
    show "\<not> I b0"
    proof
      assume Ib: "I b0"
      from inv [OF Ib] have busy: "fst (rd_status1 b0) AND 0x01 \<noteq> 0"
        and nxt: "I (sleep_ms 1 (snd (rd_status1 b0)))" by auto
      from eq busy have "wb (sleep_ms 1 (snd (rd_status1 b0))) = Some y0"
        by (simp add: split_beta)
      from IH [OF this] nxt show False by simp
    qed
  qed
  with assms(2) show False by simp
qed

lemma and1_odd: "((v :: u8) AND 0x01 \<noteq> 0) = odd v"
  by (simp add: and_one_eq odd_iff_mod_2_eq_one)

lemma mock_status_odd: "odd (mock_status d) = (m_stuck d \<or> m_busy d > 0)"
  by (simp add: mock_status_def even_or_iff even_and_iff)

lemma flash_rdsr_trace:
  "trace (snd (flash_rdsr b)) = trace b @ [([0x05], [fst (flash_rdsr b)])]"
  by (simp add: flash_rdsr_def spi_xfer_def split_beta)

lemma flash_rdsr_now: "now b \<le> now (snd (flash_rdsr b))"
  by (simp add: flash_rdsr_def spi_xfer_def split_beta)

lemma flash_wait_busy_loop_polls:
  "now b \<le> start + unat t * 1000 + 200 \<Longrightarrow>
   \<exists>polls. trace (snd (flash_wait_busy_loop start t b)) = trace b @ polls
     \<and> polls \<noteq> []
     \<and> 200 * length polls \<le> (start + unat t * 1000 + 200 - now b) + 200
     \<and> (\<forall>p \<in> set polls. fst p = [0x05] \<and> length (snd p) = 1)
     \<and> (\<forall>p \<in> set (butlast polls). hd (snd p) AND 0x01 \<noteq> 0)
     \<and> fst (flash_wait_busy_loop start t b) = (hd (snd (last polls)) AND 0x01 = 0)
     \<and> (\<not> fst (flash_wait_busy_loop start t b) \<longrightarrow>
          now (snd (flash_wait_busy_loop start t b)) - start > unat t * 1000)"
proof (induction start t b rule: flash_wait_busy_loop.induct)
  case (1 start t b)
  let ?st = "fst (flash_rdsr b)"
  let ?b1 = "snd (flash_rdsr b)"
  let ?p0 = "([0x05 :: u8], [?st])"
  show ?case
  proof (cases "?st AND 0x01 \<noteq> 0")
    case False
    then have r: "flash_wait_busy_loop start t b = (True, ?b1)"
      by (subst flash_wait_busy_loop.simps) simp
    show ?thesis
      apply (rule exI [of _ "[?p0]"])
      using False by (simp add: r flash_rdsr_trace)
  next
    case busy: True
    show ?thesis
    proof (cases "now ?b1 - start > unat t * 1000")
      case True
      then have r: "flash_wait_busy_loop start t b = (False, ?b1)"
        using busy by (subst flash_wait_busy_loop.simps) simp
      show ?thesis
        apply (rule exI [of _ "[?p0]"])
        using busy True by (simp add: r flash_rdsr_trace)
    next
      case False
      let ?b2 = "sleep_us 200 ?b1"
      have r: "flash_wait_busy_loop start t b = flash_wait_busy_loop start t ?b2"
        using busy False by (subst flash_wait_busy_loop.simps) simp
      have n2: "now ?b2 = now ?b1 + 200" by (simp add: sleep_us_def)
      have t2: "trace ?b2 = trace ?b1" by (simp add: sleep_us_def)
      have pre: "now ?b2 \<le> start + unat t * 1000 + 200"
        using False n2 by simp
      from "1.IH" [OF busy False pre] obtain polls where
        P: "trace (snd (flash_wait_busy_loop start t ?b2)) = trace ?b2 @ polls"
           "polls \<noteq> []"
           "200 * length polls \<le> (start + unat t * 1000 + 200 - now ?b2) + 200"
           "\<forall>p \<in> set polls. fst p = [0x05] \<and> length (snd p) = 1"
           "\<forall>p \<in> set (butlast polls). hd (snd p) AND 0x01 \<noteq> 0"
           "fst (flash_wait_busy_loop start t ?b2) = (hd (snd (last polls)) AND 0x01 = 0)"
           "\<not> fst (flash_wait_busy_loop start t ?b2) \<longrightarrow>
              now (snd (flash_wait_busy_loop start t ?b2)) - start > unat t * 1000"
        by blast
      have len: "200 * length (?p0 # polls) \<le> (start + unat t * 1000 + 200 - now b) + 200"
        using P(3) n2 False flash_rdsr_now [of b] by simp
      show ?thesis
        apply (rule exI [of _ "?p0 # polls"])
        using P(1,2,4,5,6,7) len busy
        by (simp add: r t2 flash_rdsr_trace)
    qed
  qed
qed

lemma flash_wait_busy_bounded:
  "\<exists>polls. trace (snd (flash_wait_busy t b)) = trace b @ polls
     \<and> polls \<noteq> []
     \<and> length polls \<le> 5 * unat t + 2
     \<and> (\<forall>p \<in> set polls. fst p = [0x05] \<and> length (snd p) = 1)
     \<and> (\<forall>p \<in> set (butlast polls). hd (snd p) AND 0x01 \<noteq> 0)
     \<and> fst (flash_wait_busy t b) = (hd (snd (last polls)) AND 0x01 = 0)
     \<and> (\<not> fst (flash_wait_busy t b) \<longrightarrow>
          now (snd (flash_wait_busy t b)) - now b > unat t * 1000)"
proof -
  from flash_wait_busy_loop_polls [of b "now b" t] obtain polls where
    P: "trace (snd (flash_wait_busy_loop (now b) t b)) = trace b @ polls"
       "polls \<noteq> []"
       "200 * length polls \<le> (now b + unat t * 1000 + 200 - now b) + 200"
       "\<forall>p \<in> set polls. fst p = [0x05] \<and> length (snd p) = 1"
       "\<forall>p \<in> set (butlast polls). hd (snd p) AND 0x01 \<noteq> 0"
       "fst (flash_wait_busy_loop (now b) t b) = (hd (snd (last polls)) AND 0x01 = 0)"
       "\<not> fst (flash_wait_busy_loop (now b) t b) \<longrightarrow>
          now (snd (flash_wait_busy_loop (now b) t b)) - now b > unat t * 1000"
    by auto
  from P(3) have "length polls \<le> 5 * unat t + 2" by simp
  with P(1,2,4,5,6,7) show ?thesis
    unfolding flash_wait_busy_def by blast
qed

lemma rd_status1_trace:
  "trace (snd (rd_status1 b)) = trace b @ [([0x05], [fst (rd_status1 b)])]"
  by (simp add: rd_status1_def spi_xfer_def split_beta)

lemma wait_busy_returns:
  "busy_for k b \<Longrightarrow>
   \<exists>b'. wait_busy b = Some b' \<and> length (trace b') = length (trace b) + Suc k"
proof (induction k arbitrary: b)
  case 0
  then show ?case
    by (subst wait_busy.simps) (simp add: split_beta rd_status1_trace)
next
  case (Suc k)
  then have busy: "fst (rd_status1 b) AND 0x01 \<noteq> 0"
    and rest: "busy_for k (sleep_ms 1 (snd (rd_status1 b)))" by simp_all
  from Suc.IH [OF rest] obtain b' where
    b': "wait_busy (sleep_ms 1 (snd (rd_status1 b))) = Some b'"
        "length (trace b') = length (trace (sleep_ms 1 (snd (rd_status1 b)))) + Suc k"
    by blast
  have "wait_busy b = Some b'"
    using busy b'(1) by (subst wait_busy.simps) (simp add: split_beta)
  moreover have "length (trace b') = length (trace b) + Suc (Suc k)"
    using b'(2) by (simp add: sleep_ms_def sleep_us_def rd_status1_trace)
  ultimately show ?case by blast
qed


text \<open>
  C7 (amended). The busy poll of the write benchmark, \<^verbatim>\<open>flash_wait_busy\<close>, is bounded
  for every chip: it issues at most 5 * timeout_ms + 2 status reads, returns \<^verbatim>\<open>true\<close>
  exactly when its last status read shows the busy bit clear, and returns \<^verbatim>\<open>false\<close> only
  after more than timeout_ms milliseconds; the bound is the argument of each call, not a
  constant. \<^verbatim>\<open>wait_busy\<close> of the restore module returns as soon as a status read shows
  the busy bit clear: after k + 1 reads when the chip shows busy k times.
\<close>

theorem busy_poll_behaviour:
  "(\<exists>polls. trace (snd (flash_wait_busy t b)) = trace b @ polls
     \<and> polls \<noteq> []
     \<and> length polls \<le> 5 * unat t + 2
     \<and> (\<forall>p \<in> set polls. fst p = [0x05] \<and> length (snd p) = 1)
     \<and> (\<forall>p \<in> set (butlast polls). hd (snd p) AND 0x01 \<noteq> 0)
     \<and> fst (flash_wait_busy t b) = (hd (snd (last polls)) AND 0x01 = 0)
     \<and> (\<not> fst (flash_wait_busy t b) \<longrightarrow>
          now (snd (flash_wait_busy t b)) - now b > unat t * 1000))
   \<and> (busy_for k c \<longrightarrow>
        (\<exists>c'. wait_busy c = Some c' \<and> length (trace c') = length (trace c) + Suc k))"
  using flash_wait_busy_bounded [of t b] wait_busy_returns [of k c] by blast

theorem busy_poll_behaviour_witness:
  "\<not> fst (flash_wait_busy 1 (mock_bus stuck_chip))
   \<and> length (trace (snd (flash_wait_busy 1 (mock_bus stuck_chip)))) \<le> 7
   \<and> now (snd (flash_wait_busy 1 (mock_bus stuck_chip))) > 1000
   \<and> busy_for 3 (mock_bus slow_chip)
   \<and> (\<exists>c'. wait_busy (mock_bus slow_chip) = Some c' \<and> length (trace c') = 4)"
proof -
  have f: "\<not> fst (flash_wait_busy 1 (mock_bus stuck_chip))" by code_simp
  have g: "busy_for 3 (mock_bus slow_chip)" by code_simp
  have t0: "trace (mock_bus stuck_chip) = []" "now (mock_bus stuck_chip) = 0"
    "trace (mock_bus slow_chip) = []"
    by (simp_all add: mock_bus_def)
  from busy_poll_behaviour [of 1 "mock_bus stuck_chip" 3 "mock_bus slow_chip"] f g t0
  show ?thesis by auto
qed

text \<open>
  C7 as stated fails: on a chip whose busy bit never clears, \<^verbatim>\<open>wait_busy\<close> of the
  restore module never returns.
\<close>

theorem wait_busy_stuck_counterexample:
  "wait_busy (mock_bus (stuck_chip)) = None"
proof (rule wait_busy_never_returns [where I = "\<lambda>b. respond b = mock_respond \<and> after b = mock_after \<and> m_stuck (dev b)"])
  fix b :: "mock bus"
  assume "respond b = mock_respond \<and> after b = mock_after \<and> m_stuck (dev b)"
  then show "fst (rd_status1 b) AND 0x01 \<noteq> 0 \<and>
     (respond (sleep_ms 1 (snd (rd_status1 b))) = mock_respond \<and>
      after (sleep_ms 1 (snd (rd_status1 b))) = mock_after \<and>
      m_stuck (dev (sleep_ms 1 (snd (rd_status1 b)))))"
    by (simp add: and1_odd mock_status_odd rd_status1_def spi_xfer_def sleep_ms_def sleep_us_def mock_respond_def mock_after_def)
next
  show "respond (mock_bus (stuck_chip)) = mock_respond \<and>
    after (mock_bus (stuck_chip)) = mock_after \<and>
    m_stuck (dev (mock_bus (stuck_chip)))"
    by (simp add: mock_bus_def mock_chip_def stuck_chip_def)
qed

section \<open>Verification: unprotect\<close>

lemma sr1_new_eq:
  "(ucast ((ucast (s :: u8) :: u32) AND
       NOT (push_bit 2 1 OR push_bit 3 1 OR push_bit 4 1 OR
            push_bit 5 1 OR push_bit 6 1 OR push_bit 7 1)) :: u8) = s AND 0x03"
proof -
  have m: "(0x03 :: u8) = mask 2" by (simp add: mask_eq_exp_minus_1)
  show ?thesis
    unfolding m
  proof (rule bit_word_eqI)
    fix n :: nat
    assume "n < LENGTH(8)"
    then have n: "n < 8" by simp
    have "(n \<noteq> 2 \<and> n \<noteq> 3 \<and> n \<noteq> 4 \<and> n \<noteq> 5 \<and> n \<noteq> 6 \<and> n \<noteq> 7) = (n < 2)"
      using n by arith
    then show "bit (ucast ((ucast s :: u32) AND
       NOT (push_bit 2 1 OR push_bit 3 1 OR push_bit 4 1 OR
            push_bit 5 1 OR push_bit 6 1 OR push_bit 7 1)) :: u8) n = bit (s AND mask 2) n"
      using n by (simp only: bit_simps bit_1_iff) auto
  qed
qed

lemma sr1_new_eq':
  "(ucast ((ucast (s :: u8) :: u32) AND - 253) :: u8) = s AND 0x03"
  using sr1_new_eq [of s] by simp

lemma bp_mask_eq:
  "(push_bit 2 1 OR push_bit 3 1 OR push_bit 4 1 OR push_bit 5 1 OR push_bit 6 1 :: u8) = 0x7C"
  by simp

lemma and1_even: "((v :: u8) AND 0x01 = 0) = even v"
  using and1_odd [of v] by simp

lemma mock_status_even: "even (mock_status d) = (\<not> m_stuck d \<and> m_busy d = 0)"
  using mock_status_odd [of d] by auto

lemma mock_status_idle:
  "\<not> m_wel d \<Longrightarrow> \<not> m_stuck d \<Longrightarrow> m_busy d = 0 \<Longrightarrow> mock_status d = m_sr1 d AND 0xFC"
  by (simp add: mock_status_def)

lemma wait_busy_clear: "even (fst (rd_status1 b)) \<Longrightarrow> wait_busy b = Some (snd (rd_status1 b))"
  by (subst wait_busy.simps) (simp add: split_beta and1_even)


lemma wait_busy_trace:
  assumes "wait_busy b = Some b'"
  shows "\<exists>polls. trace b' = trace b @ polls"
proof (rule wait_busy.raw_induct [where P = "\<lambda>b b'. \<exists>polls. trace b' = trace b @ polls"])
  show "wait_busy b = Some b'" by (rule assms)
next
  fix wb :: "'a bus \<Rightarrow> 'a bus option" and b0 y0
  assume IH: "\<And>x y. wb x = Some y \<Longrightarrow> \<exists>polls. trace y = trace x @ polls"
    and eq: "(case rd_status1 b0 of (v, b') \<Rightarrow>
               if v AND 0x01 \<noteq> 0 then wb (sleep_ms 1 b') else Some b') = Some y0"
  show "\<exists>polls. trace y0 = trace b0 @ polls"
  proof (cases "fst (rd_status1 b0) AND 0x01 \<noteq> 0")
    case True
    with eq have "wb (sleep_ms 1 (snd (rd_status1 b0))) = Some y0" by (simp add: split_beta)
    from IH [OF this] obtain polls where
      "trace y0 = trace (sleep_ms 1 (snd (rd_status1 b0))) @ polls" by blast
    then show ?thesis by (simp add: sleep_ms_def sleep_us_def rd_status1_trace)
  next
    case False
    with eq have "y0 = snd (rd_status1 b0)" by (simp add: split_beta)
    then show ?thesis by (simp add: rd_status1_trace)
  qed
qed

lemma try_unprotect_generic:
  assumes "jedec_try_unprotect chip b = Some (r, b')"
  shows "r = True \<and>
     ([0x01, fst (rd_status1 b) AND 0x03, fst (rd_status2 (snd (rd_status1 b)))], [])
       \<in> set (trace b')"
proof -
  let ?sr1 = "fst (rd_status1 b)"
  let ?sr2 = "fst (rd_status2 (snd (rd_status1 b)))"
  let ?b6 = "snd (spi_xfer (wren (printf (LogUnprotectBefore ?sr1 ?sr2
                (fst (rd_status3 (snd (rd_status2 (snd (rd_status1 b))))))) 
                (snd (rd_status3 (snd (rd_status2 (snd (rd_status1 b)))))))) [0x98] 0)"
  from assms obtain b7 b11 where
    w1: "wait_busy ?b6 = Some b7"
    and w2: "wait_busy (snd (spi_xfer (wren (ewrsr_legacy b7)) [0x01, ?sr1 AND 0x03, ?sr2] 0)) = Some b11"
    and res: "(r, b') = (True,
        if \<not> (fst (rd_status1 b11) AND 0x7C = 0)
        then printf LogUnprotectWarn (printf (LogUnprotectAfter (fst (rd_status1 b11))
               (fst (rd_status2 (snd (rd_status1 b11))))
               (fst (rd_status3 (snd (rd_status2 (snd (rd_status1 b11)))))))
               (snd (rd_status3 (snd (rd_status2 (snd (rd_status1 b11)))))))
        else printf (LogUnprotectAfter (fst (rd_status1 b11))
               (fst (rd_status2 (snd (rd_status1 b11))))
               (fst (rd_status3 (snd (rd_status2 (snd (rd_status1 b11)))))))
               (snd (rd_status3 (snd (rd_status2 (snd (rd_status1 b11)))))))"
    unfolding jedec_try_unprotect_def
    by (simp add: split_beta Let_def bind_eq_Some_conv sr1_new_eq' cong: if_cong) blast
  from wait_busy_trace [OF w2] obtain polls where
    "trace b11 = trace (snd (spi_xfer (wren (ewrsr_legacy b7)) [0x01, ?sr1 AND 0x03, ?sr2] 0)) @ polls"
    by blast
  then have "([0x01, ?sr1 AND 0x03, ?sr2], []) \<in> set (trace b11)"
    by (simp add: spi_xfer_def)
  then have "([0x01, ?sr1 AND 0x03, ?sr2], []) \<in> set (trace b')"
    using res by (simp add: printf_def rd_status1_def rd_status2_def rd_status3_def
        spi_xfer_def split_beta)
  with res show ?thesis by simp
qed

lemmas mock_eval =
  rd_status1_def rd_status2_def rd_status3_def wren_def ewrsr_legacy_def printf_def
  spi_xfer_def mock_bus_def mock_chip_def mock_respond_def mock_after_def

lemma try_unprotect_accepting:
  "\<exists>a. jedec_try_unprotect chip (mock_bus (sr_chip s1 s2 s3 False)) = Some (True, a)
     \<and> m_sr1 (dev a) = 0 \<and> m_sr2 (dev a) = s2
     \<and> console a = [LogUnprotectBefore (s1 AND 0xFC) s2 s3, LogUnprotectAfter 0 s2 s3]"
  by (simp add: jedec_try_unprotect_def sr1_new_eq' and.assoc mock_status_idle mock_status_even
      mock_eval sr_chip_def wait_busy_clear Let_def split_beta)

lemma even_and_fc: "even ((s :: u8) AND 0xFC)"
  by (simp add: even_and_iff)

lemma try_unprotect_rejecting:
  "\<exists>l. jedec_try_unprotect chip (mock_bus (sr_chip s1 s2 s3 True)) = Some (True, l)
     \<and> m_sr1 (dev l) = s1
     \<and> console l = [LogUnprotectBefore (s1 AND 0xFC) s2 s3,
                     LogUnprotectAfter (s1 AND 0xFC) s2 s3]
                    @ (if s1 AND 0x7C \<noteq> 0 then [LogUnprotectWarn] else [])"
proof (cases "s1 AND 0x7C = 0")
  case True
  then show ?thesis
    by (simp add: jedec_try_unprotect_def sr1_new_eq' and.assoc mock_status_idle mock_status_even
      mock_eval sr_chip_def wait_busy_clear even_and_fc Let_def split_beta)
next
  case False
  then show ?thesis
    by (simp add: jedec_try_unprotect_def sr1_new_eq' and.assoc mock_status_idle mock_status_even
      mock_eval sr_chip_def wait_busy_clear even_and_fc Let_def split_beta)
qed



text \<open>
  C8 (amended). \<^verbatim>\<open>jedec_try_unprotect\<close> has no report: whenever it returns, it returns
  \<^verbatim>\<open>true\<close>, having written SR1 with bits 2 to 7 cleared and bits 0 and 1 kept, and SR2
  unchanged, in one three-byte status register write. The flag \<^verbatim>\<open>bp_cleared\<close> looks at
  bits 2 to 6 of the SR1 read back and only decides whether a warning line is printed.
  On a chip that accepts the write, SR1 reads back with bits 2 to 7 clear and no warning
  is printed; on a chip that ignores the write, SR1 is unchanged and the warning is
  printed exactly when one of the bits 2 to 6 is set.
\<close>

theorem try_unprotect_behaviour:
  "(jedec_try_unprotect chip b = Some (r, b') \<longrightarrow>
      r = True \<and>
      ([0x01, fst (rd_status1 b) AND 0x03, fst (rd_status2 (snd (rd_status1 b)))], [])
        \<in> set (trace b'))
   \<and> (\<exists>a. jedec_try_unprotect chip (mock_bus (sr_chip s1 s2 s3 False)) = Some (True, a)
        \<and> m_sr1 (dev a) = 0 \<and> m_sr2 (dev a) = s2
        \<and> console a = [LogUnprotectBefore (s1 AND 0xFC) s2 s3, LogUnprotectAfter 0 s2 s3])
   \<and> (\<exists>l. jedec_try_unprotect chip (mock_bus (sr_chip s1 s2 s3 True)) = Some (True, l)
        \<and> m_sr1 (dev l) = s1
        \<and> console l = [LogUnprotectBefore (s1 AND 0xFC) s2 s3,
                        LogUnprotectAfter (s1 AND 0xFC) s2 s3]
                       @ (if s1 AND 0x7C \<noteq> 0 then [LogUnprotectWarn] else []))"
  using try_unprotect_generic [of chip b r b'] try_unprotect_accepting [of chip s1 s2 s3]
    try_unprotect_rejecting [of chip s1 s2 s3]
  by blast

theorem try_unprotect_behaviour_witness:
  "\<exists>a. jedec_try_unprotect small_chip (mock_bus (sr_chip 0x9C 0x02 0 False)) = Some (True, a)
     \<and> ([0x01, 0x00, 0x02], []) \<in> set (trace a)"
proof -
  from try_unprotect_behaviour [of small_chip _ _ _ "0x9C" "0x02" 0] obtain a where
    a: "jedec_try_unprotect small_chip (mock_bus (sr_chip 0x9C 0x02 0 False)) = Some (True, a)"
    by blast
  have s: "fst (rd_status1 (mock_bus (sr_chip 0x9C 0x02 0 False))) AND 0x03 = 0"
    "fst (rd_status2 (snd (rd_status1 (mock_bus (sr_chip 0x9C 0x02 0 False))))) = 0x02"
    by (simp_all add: mock_eval sr_chip_def mock_status_def split_beta)
  from try_unprotect_behaviour [of small_chip "mock_bus (sr_chip 0x9C 0x02 0 False)" True a] a s
  show ?thesis by simp
qed


text \<open>
  C8 as stated fails: the return value is \<^verbatim>\<open>true\<close> on the chip that ignores the write as
  on the chip that accepts it, although SR1 still reads \<^verbatim>\<open>0x9C\<close>; and with only bit 7
  left set (\<^verbatim>\<open>0x80\<close>) not even the warning is printed.
\<close>

theorem try_unprotect_counterexample:
  "map_option fst (jedec_try_unprotect small_chip (mock_bus (sr_chip 0x9C 0 0 True))) = Some True
   \<and> map_option fst (jedec_try_unprotect small_chip (mock_bus (sr_chip 0x9C 0 0 False))) = Some True
   \<and> map_option (m_sr1 \<circ> dev \<circ> snd)
        (jedec_try_unprotect small_chip (mock_bus (sr_chip 0x9C 0 0 True))) = Some 0x9C
   \<and> map_option (console \<circ> snd)
        (jedec_try_unprotect small_chip (mock_bus (sr_chip 0x80 0 0 True)))
      = Some [LogUnprotectBefore 0x80 0 0, LogUnprotectAfter 0x80 0 0]"
proof -
  from try_unprotect_rejecting [of small_chip "0x9C" 0 0] obtain l where
    l: "jedec_try_unprotect small_chip (mock_bus (sr_chip 0x9C 0 0 True)) = Some (True, l)"
       "m_sr1 (dev l) = 0x9C" by blast
  from try_unprotect_accepting [of small_chip "0x9C" 0 0] obtain a where
    a: "jedec_try_unprotect small_chip (mock_bus (sr_chip 0x9C 0 0 False)) = Some (True, a)"
    by blast
  from try_unprotect_rejecting [of small_chip "0x80" 0 0] obtain k where
    k: "jedec_try_unprotect small_chip (mock_bus (sr_chip 0x80 0 0 True)) = Some (True, k)"
       "console k = [LogUnprotectBefore (0x80 AND 0xFC) 0 0, LogUnprotectAfter (0x80 AND 0xFC) 0 0]
                    @ (if (0x80 :: u8) AND 0x7C \<noteq> 0 then [LogUnprotectWarn] else [])" by blast
  from l a k show ?thesis by simp
qed

section \<open>Verification: restore\<close>

lemma wait_busy_busy:
  "odd (fst (rd_status1 b)) \<Longrightarrow> wait_busy b = wait_busy (sleep_ms 1 (snd (rd_status1 b)))"
  by (subst wait_busy.simps) (simp add: split_beta and1_odd)

lemma program_pages_done: "\<not> off < want \<Longrightarrow> program_pages chip opts base buf want off b = Some b"
  by (subst program_pages.simps) simp

lemma program_pages_step:
  "off < want \<Longrightarrow> program_pages chip opts base buf want off b =
     (let page_addr = base + off;
          page_off = page_addr AND (program_chunk opts - 1);
          this_left = program_chunk opts - page_off;
          remain = want - off;
          n = (if this_left < remain then this_left else remain)
      in (if \<not> (skip_prog_when_all_ff opts \<and> all_ff (drop (unat off) buf) (unat n))
          then prog_page chip page_addr (drop (unat off) buf) (unat n) b
          else Some b) \<bind> program_pages chip opts base buf want (off + n))"
  by (subst program_pages.simps) simp

lemma restore_loop_done: "\<not> base < end \<Longrightarrow> restore_loop chip opts src end base user b = Some (None, user, b)"
  by (subst restore_loop.simps) simp

lemma restore_loop_step:
  "base < end \<Longrightarrow> restore_loop chip opts src end base user b =
     restore_sector chip opts src end base user b \<bind>
       (\<lambda>r. case r of
              (Some e, user', b') \<Rightarrow> Some (Some e, user', b')
            | (None, user', b') \<Rightarrow> restore_loop chip opts src end (base + erase_gran opts) user' b')"
  by (subst restore_loop.simps) simp

lemma upt_numeral_unfold:
  "[i..<numeral k] = (if i < numeral k then i # [Suc i..<numeral k] else [])"
  by (rule upt_rec)

lemmas restore_eval = upt_numeral_unfold
  mock_eval mock_status_idle mock_status_even wait_busy_clear wait_busy_busy
  program_pages_done program_pages_step restore_loop_done restore_loop_step
  restore_sector_def erase_4k_def prog_page_def erase_4k_hdr_def prog_page_hdr_def addr_hdr_def
  jedec_read_chunk_def read_chunk_hdr_def all_ff_def all_ff_from.simps first_bad.simps
  mock_erase_def mock_program_def mock_cell_def mock_alen_def be_value_def
  flash_chip_def small_chip_def small_opts_def list_source_def ff_source_def
  Let_def split_beta

lemma all_ff_from_iff: "all_ff_from p n i = (\<forall>j. i \<le> j \<and> j < n \<longrightarrow> p ! j = 0xFF)"
proof (induction p n i rule: all_ff_from.induct)
  case (1 p n i)
  show ?case
  proof (cases "i < n")
    case False
    then show ?thesis by (subst all_ff_from.simps) auto
  next
    case True
    show ?thesis
    proof (cases "p ! i = 0xFF")
      case False
      with True show ?thesis by (subst all_ff_from.simps) auto
    next
      case eq: True
      have "all_ff_from p n i = all_ff_from p n (i + 1)"
        using True eq by (subst all_ff_from.simps) simp
      also have "\<dots> = (\<forall>j. i + 1 \<le> j \<and> j < n \<longrightarrow> p ! j = 0xFF)"
        using "1.IH" [OF True] eq by simp
      also have "\<dots> = (\<forall>j. i \<le> j \<and> j < n \<longrightarrow> p ! j = 0xFF)"
      proof
        assume L: "\<forall>j. i + 1 \<le> j \<and> j < n \<longrightarrow> p ! j = 0xFF"
        show "\<forall>j. i \<le> j \<and> j < n \<longrightarrow> p ! j = 0xFF"
        proof (intro allI impI)
          fix j assume "i \<le> j \<and> j < n"
          then show "p ! j = 0xFF" using L eq by (cases "j = i") auto
        qed
      next
        assume "\<forall>j. i \<le> j \<and> j < n \<longrightarrow> p ! j = 0xFF"
        then show "\<forall>j. i + 1 \<le> j \<and> j < n \<longrightarrow> p ! j = 0xFF" by auto
      qed
      finally show ?thesis .
    qed
  qed
qed

lemma all_ff_iff: "all_ff p n = (\<forall>j < n. p ! j = 0xFF)"
  by (simp add: all_ff_def all_ff_from_iff)

lemma all_ff_set: "length buf = n \<Longrightarrow> all_ff buf n = (\<forall>x \<in> set buf. x = 0xFF)"
  by (simp add: all_ff_iff all_set_conv_all_nth)

lemma first_bad_eq:
  "i < want \<Longrightarrow> buf ! i \<noteq> vbuf ! i \<Longrightarrow> \<forall>j < i. buf ! j = vbuf ! j \<Longrightarrow> k \<le> i \<Longrightarrow>
   first_bad buf vbuf want k = i"
proof (induction "i - k" arbitrary: k)
  case 0
  then have "k = i" by simp
  with 0 show ?case by (subst first_bad.simps) simp
next
  case (Suc d)
  then have lt: "k < i" by simp
  with Suc.prems have "first_bad buf vbuf want k = first_bad buf vbuf want (k + 1)"
    by (subst first_bad.simps) simp
  also have "\<dots> = i"
    using Suc.hyps(1) [of "k + 1"] Suc.hyps(2) Suc.prems lt by simp
  finally show ?case .
qed

lemma restore_sector_skip:
  assumes "skip_erase_when_all_ff opts"
    and "src user (unat (if base + erase_gran opts > end then end - base else erase_gran opts)) base
           = (True, buf, user')"
    and "length buf = unat (if base + erase_gran opts > end then end - base else erase_gran opts)"
    and "\<forall>x \<in> set buf. x = 0xFF"
  shows "restore_sector chip opts src end base user b = Some (None, user', b)"
  using assms all_ff_set [OF assms(3)]
  by (simp add: restore_sector_def Let_def)


text \<open>
  C4. When \<^verbatim>\<open>skip_erase_when_all_ff\<close> is set and the block pulled from the source
  consists of \<^verbatim>\<open>0xFF\<close> bytes only, the sector step of \<^verbatim>\<open>jedec_restore_stream\<close> leaves
  the bus as it was: no transaction is issued for the block, so neither an erase nor a
  program, and the loop goes on with the next block.
\<close>

theorem all_ff_sector_untouched:
  assumes "skip_erase_when_all_ff opts"
    and "src user (unat (if base + erase_gran opts > end then end - base else erase_gran opts)) base
           = (True, buf, user')"
    and "length buf = unat (if base + erase_gran opts > end then end - base else erase_gran opts)"
    and "\<forall>x \<in> set buf. x = 0xFF"
  shows "restore_sector chip opts src end base user b = Some (None, user', b)
     \<and> (base < end \<longrightarrow>
          restore_loop chip opts src end base user b
          = restore_loop chip opts src end (base + erase_gran opts) user' b)"
  using restore_sector_skip [where opts = opts and src = src and user = user and base = base
      and ?end = "end" and buf = buf and user' = user' and chip = chip and b = b, OF assms]
  by (simp add: restore_loop_step)

theorem all_ff_sector_untouched_witness:
  "restore_sector small_chip small_opts (list_source [0xFF, 0xFF, 0xFF, 0xFF, 1, 2, 3, 4]) 8 0 ()
     (mock_bus (flash_chip [9, 9, 9, 9, 9, 9, 9, 9] None))
   = Some (None, (), mock_bus (flash_chip [9, 9, 9, 9, 9, 9, 9, 9] None))"
proof -
  have h1: "skip_erase_when_all_ff small_opts" by (simp add: small_opts_def)
  have h2: "list_source [0xFF, 0xFF, 0xFF, 0xFF, 1, 2, 3, 4] ()
      (unat (if 0 + erase_gran small_opts > 8 then 8 - 0 else erase_gran small_opts)) 0
      = (True, [0xFF, 0xFF, 0xFF, 0xFF], ())"
    by (simp add: small_opts_def list_source_def)
  have h3: "length [0xFF, 0xFF, 0xFF, 0xFF :: u8]
      = unat (if 0 + erase_gran small_opts > 8 then 8 - 0 else erase_gran small_opts)"
    by (simp add: small_opts_def)
  have h4: "\<forall>x \<in> set [0xFF, 0xFF, 0xFF, 0xFF :: u8]. x = 0xFF" by simp
  from all_ff_sector_untouched [where opts = small_opts
      and src = "list_source [0xFF, 0xFF, 0xFF, 0xFF, 1, 2, 3, 4]" and user = "()" and base = 0
      and ?end = 8 and buf = "[0xFF, 0xFF, 0xFF, 0xFF]" and user' = "()" and chip = small_chip
      and b = "mock_bus (flash_chip [9, 9, 9, 9, 9, 9, 9, 9] None)", OF h1 h2 h3 h4]
  show ?thesis by simp
qed

lemma all_ff_replicate: "all_ff (replicate n 0xFF) n"
  by (simp add: all_ff_iff)

lemma restore_sector_ff_source:
  assumes "skip_erase_when_all_ff opts"
    and "\<forall>u want off. \<exists>u'. src u want off = (True, replicate want 0xFF, u')"
  shows "\<exists>u'. restore_sector chip opts src end base user b = Some (None, u', b)"
proof -
  let ?want = "if base + erase_gran opts > end then end - base else erase_gran opts"
  from assms(2) obtain u' where "src user (unat ?want) base = (True, replicate (unat ?want) 0xFF, u')"
    by blast
  with assms(1) show ?thesis
    by (simp add: restore_sector_def Let_def all_ff_replicate)
qed

lemma restore_loop_ff_source:
  assumes skip: "skip_erase_when_all_ff opts"
    and gran: "erase_gran opts \<noteq> 0"
    and src: "\<forall>u want off. \<exists>u'. src u want off = (True, replicate want 0xFF, u')"
    and fit: "unat end + unat (erase_gran opts) \<le> 2 ^ 32"
  shows "\<exists>u'. restore_loop chip opts src end base user b = Some (None, u', b)"
proof (induction "unat end - unat base" arbitrary: base user rule: less_induct)
  case less
  show ?case
  proof (cases "base < end")
    case False
    then show ?thesis by (simp add: restore_loop_done)
  next
    case True
    from restore_sector_ff_source [OF skip src, of chip "end" base user b] obtain u1 where
      u1: "restore_sector chip opts src end base user b = Some (None, u1, b)" by blast
    have lt: "unat base < unat end" using True by (simp add: word_less_nat_alt)
    have gpos: "0 < unat (erase_gran opts)" using gran by (simp add: unat_gt_0)
    have "unat base + unat (erase_gran opts) < 2 ^ 32" using lt fit by simp
    then have nxt: "unat (base + erase_gran opts) = unat base + unat (erase_gran opts)"
      by (simp add: unat_add_lem [THEN iffD1])
    have "unat end - unat (base + erase_gran opts) < unat end - unat base"
      using nxt lt gpos by simp
    from less [OF this, of u1] obtain u' where
      "restore_loop chip opts src end (base + erase_gran opts) u1 b = Some (None, u', b)" by blast
    with u1 True show ?thesis by (simp add: restore_loop_step)
  qed
qed


text \<open>
  C10. With \<^verbatim>\<open>skip_erase_when_all_ff\<close> set and a source that delivers \<^verbatim>\<open>0xFF\<close> bytes
  only, \<^verbatim>\<open>jedec_restore_stream\<close> returns success with the bus in the state the unprotect
  step left it in, for every chip and whatever \<^verbatim>\<open>verify_after_write\<close> is: no block is
  read back, so the result does not depend on what the chip holds.
\<close>

theorem all_ff_restore_skips_verification:
  assumes "skip_erase_when_all_ff opts"
    and "erase_gran opts \<noteq> 0"
    and "unat offset + unat len + unat (erase_gran opts) \<le> 2 ^ 32"
    and "\<forall>u want off. \<exists>u'. src u want off = (True, replicate want 0xFF, u')"
    and "jedec_try_unprotect chip b = Some (r, b1)"
  shows "\<exists>u'. jedec_restore_stream chip offset len (Some src) user (Some opts) True b
              = Some (None, u', b1)"
proof -
  have "unat offset + unat len < 2 ^ 32"
    using assms(2,3) unat_gt_0 [of "erase_gran opts"] by simp
  then have e: "unat (offset + len) = unat offset + unat len"
    by (simp add: unat_add_lem [THEN iffD1])
  have fit: "unat (offset + len) + unat (erase_gran opts) \<le> 2 ^ 32"
    using e assms(3) by simp
  from restore_loop_ff_source [OF assms(1,2,4) fit, of chip offset user b1] obtain u' where
    "restore_loop chip opts src (offset + len) offset user b1 = Some (None, u', b1)" by blast
  with assms(5) show ?thesis by (simp add: jedec_restore_stream_def)
qed

lemmas unprotect_eval =
  jedec_try_unprotect_def sr1_new_eq' and.assoc mock_status_idle mock_status_even
  mock_eval flash_chip_def wait_busy_clear even_and_fc Let_def split_beta

theorem all_ff_restore_skips_verification_witness:
  "\<exists>u' b'. jedec_restore_stream small_chip 0 8 (Some ff_source) () (Some small_opts) True
             (mock_bus (flash_chip [1, 2, 3, 4, 5, 6, 7, 8] None)) = Some (None, u', b')
     \<and> verify_after_write small_opts
     \<and> m_mem (dev b') = [1, 2, 3, 4, 5, 6, 7, 8]"
proof -
  have h1: "skip_erase_when_all_ff small_opts" and h2: "erase_gran small_opts \<noteq> 0"
    and h3: "unat (0 :: u32) + unat (8 :: u32) + unat (erase_gran small_opts) \<le> 2 ^ 32"
    and v: "verify_after_write small_opts"
    by (simp_all add: small_opts_def)
  have h4: "\<forall>u want off. \<exists>u'. ff_source u want off = (True, replicate want 0xFF, u')"
    by (simp add: ff_source_def)
  have "\<exists>b1. jedec_try_unprotect small_chip (mock_bus (flash_chip [1, 2, 3, 4, 5, 6, 7, 8] None))
           = Some (True, b1) \<and> m_mem (dev b1) = [1, 2, 3, 4, 5, 6, 7, 8]"
    by (simp add: unprotect_eval)
  then obtain b1 where
    h5: "jedec_try_unprotect small_chip (mock_bus (flash_chip [1, 2, 3, 4, 5, 6, 7, 8] None))
           = Some (True, b1)"
    and m: "m_mem (dev b1) = [1, 2, 3, 4, 5, 6, 7, 8]" by blast
  from all_ff_restore_skips_verification [OF h1 h2 h3 h4 h5, of "()"] v m
  show ?thesis by blast
qed

lemma jedec_read_chunk_length: "length (fst (snd (jedec_read_chunk chip addr n b))) = n"
  by (simp add: jedec_read_chunk_def spi_xfer_def split_beta)

lemma jedec_read_chunk_ok: "fst (jedec_read_chunk chip addr n b) = True"
  by (simp add: jedec_read_chunk_def split_beta)

lemma restore_sector_mismatch:
  assumes verify: "verify_after_write opts"
    and pull: "src user (unat want) base = (True, buf, user')"
    and want: "want = (if base + erase_gran opts > end then end - base else erase_gran opts)"
    and len: "length buf = unat want"
    and noskip: "\<not> (skip_erase_when_all_ff opts \<and> all_ff buf (unat want))"
    and erased: "erase_4k chip base b = Some b1"
    and programmed: "program_pages chip opts base buf want 0 b1 = Some b2"
    and readback: "jedec_read_chunk chip base (unat want) b2 = (rd_ok, vbuf, b3)"
    and i: "i < unat want" "vbuf ! i \<noteq> buf ! i" "\<forall>j < i. vbuf ! j = buf ! j"
  shows "restore_sector chip opts src end base user b
     = Some (Some ErrVerify, user', printf (LogVerifyMismatch base i (buf ! i) (vbuf ! i)) b3)"
proof -
  have ok: "rd_ok" using readback jedec_read_chunk_ok [of chip base "unat want" b2] by simp
  have vlen: "length vbuf = unat want"
    using readback jedec_read_chunk_length [of chip base "unat want" b2] by simp
  have "take (unat want) buf ! i \<noteq> take (unat want) vbuf ! i" using i by simp
  then have ne: "take (unat want) buf \<noteq> take (unat want) vbuf" by metis
  have fb: "first_bad buf vbuf (unat want) 0 = i"
    using first_bad_eq [of i "unat want" buf vbuf 0] i by auto
  show ?thesis
    using verify pull len noskip erased programmed readback ok ne fb want
    by (simp add: restore_sector_def Let_def)
qed


lemma restore_sector_end:
  assumes "(if base + erase_gran opts > e1 then e1 - base else erase_gran opts)
         = (if base + erase_gran opts > e2 then e2 - base else erase_gran opts)"
  shows "restore_sector chip opts src e1 base user b = restore_sector chip opts src e2 base user b"
  unfolding restore_sector_def Let_def by (simp only: assms)

lemma restore_loop_prefix:
  assumes gran: "erase_gran opts \<noteq> 0"
    and le: "base \<le> end"
  shows "unat offset + k * unat (erase_gran opts) = unat base \<Longrightarrow>
     restore_loop chip opts src base offset user0 b0 = Some (None, user, b) \<Longrightarrow>
     restore_loop chip opts src end offset user0 b0 = restore_loop chip opts src end base user b"
proof (induction k arbitrary: offset user0 b0)
  case 0
  then have "offset = base" by (simp add: word_unat_eq_iff)
  with 0 show ?case by (simp add: restore_loop_done)
next
  case (Suc k)
  let ?g = "erase_gran opts"
  have gpos: "0 < unat ?g" using gran by (simp add: unat_gt_0)
  have sum: "unat offset + unat ?g \<le> unat base" using Suc.prems(1) by simp
  have "unat base < 2 ^ LENGTH(32)" by (rule unsigned_less)
  with sum have "unat offset + unat ?g < 2 ^ LENGTH(32)" by simp
  then have nxt: "unat (offset + ?g) = unat offset + unat ?g"
    by (rule unat_add_lem [THEN iffD1])
  have lt: "offset < base" using sum gpos by (simp add: word_less_nat_alt)
  have lt': "offset < end" using lt le by simp
  have n1: "\<not> offset + ?g > base" using nxt sum by (simp add: word_less_nat_alt)
  have n2: "\<not> offset + ?g > end" using nxt sum le by (simp add: word_less_nat_alt word_le_nat_alt)
  have sec: "restore_sector chip opts src base offset user0 b0
      = restore_sector chip opts src end offset user0 b0"
    by (rule restore_sector_end) (simp add: n1 n2)
  from Suc.prems(2) have "\<exists>eo u1 b1. restore_sector chip opts src end offset user0 b0 = Some (eo, u1, b1)
      \<and> (case (eo, u1, b1) of (Some e, user', b') \<Rightarrow> Some (Some e, user', b')
             | (None, user', b') \<Rightarrow> restore_loop chip opts src base (offset + ?g) user' b')
           = Some (None, user, b)"
    by (simp add: restore_loop_step [OF lt] sec bind_eq_Some_conv)
  then obtain eo u1 b1 where
    r: "restore_sector chip opts src end offset user0 b0 = Some (eo, u1, b1)"
    and c: "(case (eo, u1, b1) of (Some e, user', b') \<Rightarrow> Some (Some e, user', b')
             | (None, user', b') \<Rightarrow> restore_loop chip opts src base (offset + ?g) user' b')
           = Some (None, user, b)"
    by blast
  from c have eo: "eo = None"
    by (cases eo) simp_all
  from c eo have rest: "restore_loop chip opts src base (offset + ?g) u1 b1 = Some (None, user, b)"
    by simp
  have "unat (offset + ?g) + k * unat ?g = unat base" using Suc.prems(1) nxt by simp
  from Suc.IH [OF this rest]
  have "restore_loop chip opts src end (offset + ?g) u1 b1 = restore_loop chip opts src end base user b" .
  then show ?case using r eo by (simp add: restore_loop_step [OF lt'])
qed

lemma unprotect_flash_chip:
  "\<exists>b0. jedec_try_unprotect small_chip (mock_bus (flash_chip mem bad)) = Some (True, b0)
     \<and> dev b0 = flash_chip mem bad \<and> respond b0 = mock_respond \<and> after b0 = mock_after
     \<and> duration b0 = (\<lambda>d tx n. 1)
     \<and> console b0 = [LogUnprotectBefore 0 0 0, LogUnprotectAfter 0 0 0]"
  by (simp add: unprotect_eval mock_status_def)


text \<open>
  C3 (amended). With \<^verbatim>\<open>verify_after_write\<close> set, when the blocks before \<open>base\<close> have been
  restored, the block at \<open>base\<close> has been erased and programmed, and its read-back first
  differs from the source buffer at index \<open>i\<close> (in particular when that is the only
  difference), \<^verbatim>\<open>jedec_restore_stream\<close> returns \<^verbatim>\<open>false\<close> from its verify branch: the
  mismatch line it prints names the block base and the index \<open>i\<close> of the byte in the
  block, so the byte at address \<open>base + i\<close>, with the byte written and the byte read; the
  source is not pulled again and the read-back is the last bus transaction.
\<close>

theorem verify_mismatch_aborts:
  assumes "opts = (case opts_in of None \<Rightarrow> default_opts chip | Some opts' \<Rightarrow> opts')"
    and "verify_after_write opts"
    and "erase_gran opts \<noteq> 0"
    and "jedec_try_unprotect chip b = Some (r, b0)"
    and "unat offset + unat len < 2 ^ 32"
    and "unat base = unat offset + k * unat (erase_gran opts)"
    and "unat base < unat offset + unat len"
    and "restore_loop chip opts src base offset user0 b0 = Some (None, user, bk)"
    and "src user (unat want) base = (True, buf, user')"
    and "want = (if base + erase_gran opts > offset + len then offset + len - base
                 else erase_gran opts)"
    and "length buf = unat want"
    and "\<not> (skip_erase_when_all_ff opts \<and> all_ff buf (unat want))"
    and "erase_4k chip base bk = Some b1"
    and "program_pages chip opts base buf want 0 b1 = Some b2"
    and "jedec_read_chunk chip base (unat want) b2 = (rd_ok, vbuf, b3)"
    and "i < unat want" and "vbuf ! i \<noteq> buf ! i" and "\<forall>j < i. vbuf ! j = buf ! j"
  shows "jedec_restore_stream chip offset len (Some src) user0 opts_in True b
           = Some (Some ErrVerify, user', printf (LogVerifyMismatch base i (buf ! i) (vbuf ! i)) b3)
       \<and> trace (printf (LogVerifyMismatch base i (buf ! i) (vbuf ! i)) b3)
           = trace b2 @ [(read_chunk_hdr chip base, vbuf)]
       \<and> console (printf (LogVerifyMismatch base i (buf ! i) (vbuf ! i)) b3)
           = console b2 @ [LogVerifyMismatch base i (buf ! i) (vbuf ! i)]"
proof -
  note opts = assms(1) and verify = assms(2) and gran = assms(3) and unprotect = assms(4)
    and nowrap = assms(5) and block = assms(6) and inside = assms(7) and before = assms(8)
    and pull = assms(9) and want = assms(10) and len = assms(11) and noskip = assms(12)
    and erased = assms(13) and programmed = assms(14) and readback = assms(15)
    and i = assms(16-18)
  have e: "unat (offset + len) = unat offset + unat len"
    using nowrap by (simp add: unat_add_lem [THEN iffD1])
  have lt: "base < offset + len" using inside e by (simp add: word_less_nat_alt)
  then have le: "base \<le> offset + len" by simp
  have pre: "restore_loop chip opts src (offset + len) offset user0 b0
      = restore_loop chip opts src (offset + len) base user bk"
    by (rule restore_loop_prefix [OF gran le block [symmetric] before])
  have sec: "restore_sector chip opts src (offset + len) base user bk
     = Some (Some ErrVerify, user', printf (LogVerifyMismatch base i (buf ! i) (vbuf ! i)) b3)"
    by (rule restore_sector_mismatch [where src = src and user = user,
          OF verify pull want len noskip erased programmed readback i])
  have loop: "restore_loop chip opts src (offset + len) base user bk
     = Some (Some ErrVerify, user', printf (LogVerifyMismatch base i (buf ! i) (vbuf ! i)) b3)"
    using sec lt by (simp add: restore_loop_step)
  have 1: "jedec_restore_stream chip offset len (Some src) user0 opts_in True b
           = Some (Some ErrVerify, user', printf (LogVerifyMismatch base i (buf ! i) (vbuf ! i)) b3)"
    using unprotect pre loop opts by (simp add: jedec_restore_stream_def)
  have t: "trace b3 = trace b2 @ [(read_chunk_hdr chip base, vbuf)]" "console b3 = console b2"
    using readback by (auto simp: jedec_read_chunk_def spi_xfer_def split_beta)
  show ?thesis using 1 t by (simp add: printf_def)
qed

theorem verify_mismatch_aborts_witness:
  "map_option (\<lambda>(r, u, b). (r, console b, last (trace b)))
     (jedec_restore_stream small_chip 0 8
        (Some (list_source [0x11, 0x22, 0x33, 0x44, 0x55, 0x66, 0x77, 0x88])) () (Some small_opts) True
        (mock_bus (flash_chip [1, 2, 3, 4, 5, 6, 7, 8] (Some 6))))
   = Some (Some ErrVerify,
           [LogUnprotectBefore 0 0 0, LogUnprotectAfter 0 0 0, LogVerifyMismatch 4 2 0x77 0x00],
           ([0x03, 0, 0, 4], [0x55, 0x66, 0x00, 0x88]))"
proof -
  let ?src = "list_source [0x11, 0x22, 0x33, 0x44, 0x55, 0x66, 0x77, 0x88]"
  let ?buf = "[0x55, 0x66, 0x77, 0x88 :: u8]"
  let ?vbuf = "[0x55, 0x66, 0x00, 0x88 :: u8]"
  from unprotect_flash_chip [of "[1, 2, 3, 4, 5, 6, 7, 8]" "Some 6"] obtain b0 where
    h4: "jedec_try_unprotect small_chip (mock_bus (flash_chip [1, 2, 3, 4, 5, 6, 7, 8] (Some 6))) = Some (True, b0)"
    and d0: "dev b0 = flash_chip [1, 2, 3, 4, 5, 6, 7, 8] (Some 6)" "respond b0 = mock_respond"
       "after b0 = mock_after" "duration b0 = (\<lambda>d tx n. 1)"
       "console b0 = [LogUnprotectBefore 0 0 0, LogUnprotectAfter 0 0 0]"
    by blast
  have "\<exists>bk. restore_loop small_chip small_opts ?src 4 0 () b0 = Some (None, (), bk)
      \<and> dev bk = flash_chip [0x11, 0x22, 0x33, 0x44, 5, 6, 7, 8] (Some 6)
      \<and> respond bk = mock_respond \<and> after bk = mock_after \<and> console bk = console b0"
    by (simp add: restore_eval d0)
  then obtain bk where
    h8: "restore_loop small_chip small_opts ?src 4 0 () b0 = Some (None, (), bk)"
    and dk: "dev bk = flash_chip [0x11, 0x22, 0x33, 0x44, 5, 6, 7, 8] (Some 6)"
       "respond bk = mock_respond" "after bk = mock_after" "console bk = console b0"
    by blast
  have "\<exists>b1. erase_4k small_chip 4 bk = Some b1
      \<and> dev b1 = flash_chip [0x11, 0x22, 0x33, 0x44, 0xFF, 0xFF, 0xFF, 0xFF] (Some 6)
      \<and> respond b1 = mock_respond \<and> after b1 = mock_after \<and> console b1 = console b0"
    by (simp add: restore_eval dk)
  then obtain b1 where
    h13: "erase_4k small_chip 4 bk = Some b1"
    and d1: "dev b1 = flash_chip [0x11, 0x22, 0x33, 0x44, 0xFF, 0xFF, 0xFF, 0xFF] (Some 6)"
       "respond b1 = mock_respond" "after b1 = mock_after" "console b1 = console b0"
    by blast
  have "\<exists>b2. program_pages small_chip small_opts 4 ?buf 4 0 b1 = Some b2
      \<and> dev b2 = flash_chip [0x11, 0x22, 0x33, 0x44, 0x55, 0x66, 0x77, 0x88] (Some 6)
      \<and> respond b2 = mock_respond \<and> after b2 = mock_after \<and> console b2 = console b0"
    by (simp add: restore_eval d1)
  then obtain b2 where
    h14: "program_pages small_chip small_opts 4 ?buf 4 0 b1 = Some b2"
    and d2: "dev b2 = flash_chip [0x11, 0x22, 0x33, 0x44, 0x55, 0x66, 0x77, 0x88] (Some 6)"
       "respond b2 = mock_respond" "after b2 = mock_after" "console b2 = console b0"
    by blast
  let ?rd = "jedec_read_chunk small_chip 4 4 b2"
  have vb: "fst (snd ?rd) = ?vbuf" by (simp add: restore_eval d2)
  have h15: "jedec_read_chunk small_chip 4 (unat (4 :: u32)) b2 = (fst ?rd, ?vbuf, snd (snd ?rd))"
    using vb by (simp add: prod_eq_iff)
  have h1: "small_opts = (case Some small_opts of None \<Rightarrow> default_opts small_chip | Some opts' \<Rightarrow> opts')"
    by simp
  have h2: "verify_after_write small_opts" and h3: "erase_gran small_opts \<noteq> 0"
    by (simp_all add: small_opts_def)
  have h5: "unat (0 :: u32) + unat (8 :: u32) < 2 ^ 32" by simp
  have h6: "unat (4 :: u32) = unat (0 :: u32) + 1 * unat (erase_gran small_opts)"
    by (simp add: small_opts_def)
  have h7: "unat (4 :: u32) < unat (0 :: u32) + unat (8 :: u32)" by simp
  have h9: "?src () (unat (4 :: u32)) 4 = (True, ?buf, ())" by (simp add: list_source_def)
  have h10: "(4 :: u32) = (if 4 + erase_gran small_opts > 0 + 8 then 0 + 8 - 4 else erase_gran small_opts)"
    by (simp add: small_opts_def)
  have h11: "length ?buf = unat (4 :: u32)" by simp
  have h12: "\<not> (skip_erase_when_all_ff small_opts \<and> all_ff ?buf (unat (4 :: u32)))"
    by (simp add: all_ff_def all_ff_from.simps)
  have h16: "2 < unat (4 :: u32)" by simp
  have h17: "?vbuf ! 2 \<noteq> ?buf ! 2" by simp
  have h18: "\<forall>j < 2. ?vbuf ! j = ?buf ! j"
  proof (intro allI impI)
    fix j :: nat assume "j < 2"
    then have "j = 0 \<or> j = 1" by arith
    then show "?vbuf ! j = ?buf ! j" by auto
  qed
  have t3: "trace (snd (snd ?rd)) \<noteq> []" by (simp add: jedec_read_chunk_def spi_xfer_def split_beta)
  note R = verify_mismatch_aborts [where src = ?src and user = "()" and opts_in = "Some small_opts"
      and chip = small_chip and k = 1,
      OF h1 h2 h3 h4 h5 h6 h7 h8 h9 h10 h11 h12 h13 h14 h15 h16 h17 h18]
  have hdr: "read_chunk_hdr small_chip 4 = [0x03, 0, 0, 4]"
    by (simp add: read_chunk_hdr_def addr_hdr_def small_chip_def)
  from R show ?thesis
    by (simp add: d2 d0 hdr)
qed

text \<open>
  C3 as stated fails: on a chip whose cell at address 5 is defective, the restore returns
  \<^verbatim>\<open>false\<close> and the mismatch line reads 4 and 1, the base of the block and the index in
  it; the address 5 is not reported as one offset, and no error value carries it.
\<close>

theorem verify_mismatch_offset_counterexample:
  "map_option (\<lambda>(r, u, b). (r, console b))
     (jedec_restore_stream small_chip 0 8
        (Some (list_source [0x11, 0x22, 0x33, 0x44, 0x55, 0x66, 0x77, 0x88])) () (Some small_opts) True
        (mock_bus (flash_chip [1, 2, 3, 4, 5, 6, 7, 8] (Some 5))))
   = Some (Some ErrVerify,
           [LogUnprotectBefore 0 0 0, LogUnprotectAfter 0 0 0, LogVerifyMismatch 4 1 0x66 0x00])"
proof -
  from unprotect_flash_chip [of "[1, 2, 3, 4, 5, 6, 7, 8]" "Some 5"] obtain b0 where
    u: "jedec_try_unprotect small_chip (mock_bus (flash_chip [1, 2, 3, 4, 5, 6, 7, 8] (Some 5))) = Some (True, b0)"
    and d: "dev b0 = flash_chip [1, 2, 3, 4, 5, 6, 7, 8] (Some 5)" "respond b0 = mock_respond"
       "after b0 = mock_after" "duration b0 = (\<lambda>d tx n. 1)"
       "console b0 = [LogUnprotectBefore 0 0 0, LogUnprotectAfter 0 0 0]"
    by blast
  have "map_option (\<lambda>(r, u, b). (r, console b))
     (restore_loop small_chip small_opts (list_source [0x11, 0x22, 0x33, 0x44, 0x55, 0x66, 0x77, 0x88])
        8 0 () b0)
   = Some (Some ErrVerify,
           [LogUnprotectBefore 0 0 0, LogUnprotectAfter 0 0 0, LogVerifyMismatch 4 1 0x66 0x00])"
    by (simp add: restore_eval d)
  then show ?thesis using u by (simp add: jedec_restore_stream_def)
qed


section \<open>Verification: backup\<close>

lemma chunk_ranges_empty: "chunk_ranges a 0 c = []"
  by (cases "c = 0") (simp_all add: chunk_ranges_def)

lemma chunk_count_step:
  assumes "0 < c" "0 < l"
  shows "(l + c - 1) div c = Suc ((l - min c l + c - 1) div c)"
proof (cases "l \<le> c")
  case True
  have "(l + c - 1) div c = 1"
    by (rule div_nat_eqI) (use assms True in auto)
  with True assms show ?thesis by simp
next
  case False
  then have "l + c - 1 = (l - c + c - 1) + c" using assms by simp
  then have "(l + c - 1) div c = Suc ((l - c + c - 1) div c)"
    using assms by (simp only: div_add_self2)
  with False show ?thesis by (simp add: min_def)
qed

lemma chunk_ranges_step:
  assumes "0 < c" "0 < l"
  shows "chunk_ranges a l c = (a, min c l) # chunk_ranges (a + min c l) (l - min c l) c"
proof (cases "l \<le> c")
  case True
  have "(l + c - 1) div c = 1"
    by (rule div_nat_eqI) (use assms True in auto)
  with True assms show ?thesis
    by (simp add: chunk_ranges_def chunk_ranges_empty [unfolded chunk_ranges_def])
next
  case False
  then have m: "min c l = c" by simp
  have cnt: "(l + c - 1) div c = Suc ((l - c + c - 1) div c)"
    using chunk_count_step [OF assms] m by simp
  have "map (\<lambda>k. (a + k * c, min c (l - k * c))) [0..<Suc ((l - c + c - 1) div c)]
      = (a, min c l) # map (\<lambda>k. (a + Suc k * c, min c (l - Suc k * c))) [0..<(l - c + c - 1) div c]"
    by (simp only: upt_conv_Cons [OF zero_less_Suc] list.map map_Suc_upt [symmetric] map_map comp_def)
       simp
  also have "map (\<lambda>k. (a + Suc k * c, min c (l - Suc k * c))) [0..<(l - c + c - 1) div c]
      = map (\<lambda>k. (a + c + k * c, min c (l - c - k * c))) [0..<(l - c + c - 1) div c]"
    by (simp add: add.assoc diff_diff_eq)
  finally show ?thesis
    unfolding chunk_ranges_def cnt m by simp
qed

lemma chunk_ranges_sum:
  "0 < c \<Longrightarrow> sum_list (map snd (chunk_ranges a l c)) = l"
proof (induction l arbitrary: a rule: less_induct)
  case (less l)
  show ?case
  proof (cases "l = 0")
    case True
    then show ?thesis by (simp add: chunk_ranges_empty)
  next
    case False
    then have pos: "0 < l" by simp
    have "l - min c l < l" using pos less.prems by (simp add: min_def)
    from less.IH [OF this less.prems, of "a + min c l"] show ?thesis
      by (simp add: chunk_ranges_step [OF less.prems pos])
  qed
qed

lemma backup_loop_done: "\<not> a < end \<Longrightarrow> backup_loop chip sink chunk end a user b = Some (True, user, b)"
  by (subst backup_loop.simps) simp

lemma backup_loop_step:
  "a < end \<Longrightarrow> backup_loop chip sink chunk end a user b =
     (let n = (if a + chunk > end then end - a else chunk);
          (rd_ok, buf, b1) = jedec_read_chunk chip a (unat n) b
      in if \<not> rd_ok then Some (False, user, b1)
         else (let (cont, user') = sink user buf a
               in if \<not> cont then Some (False, user', b1)
                  else backup_loop chip sink chunk end (a + n) user' b1))"
  by (subst backup_loop.simps) simp

lemma backup_loop_feed:
  assumes c: "chunk \<noteq> 0"
    and fit: "unat end + unat chunk \<le> 2 ^ 32"
  shows "a \<le> end \<Longrightarrow>
     backup_loop chip sink chunk end a user b
     = Some (feed_chunks chip sink (chunk_ranges (unat a) (unat end - unat a) (unat chunk)) user b)"
proof (induction "unat end - unat a" arbitrary: a user b rule: less_induct)
  case less
  have cpos: "0 < unat chunk" using c by (simp add: unat_gt_0)
  show ?case
  proof (cases "a < end")
    case False
    with less.prems have "a = end" by simp
    then show ?thesis by (simp add: backup_loop_done chunk_ranges_empty)
  next
    case True
    then have lt: "unat a < unat end" by (simp add: word_less_nat_alt)
    then have lpos: "0 < unat end - unat a" by simp
    have "unat a + unat chunk < 2 ^ 32" using lt fit by simp
    then have ac: "unat (a + chunk) = unat a + unat chunk"
      by (simp add: unat_add_lem [THEN iffD1])
    have ea: "unat (end - a) = unat end - unat a"
      using less.prems by (simp add: unat_sub)
    let ?n = "if a + chunk > end then end - a else chunk"
    have n: "unat ?n = min (unat chunk) (unat end - unat a)"
      using ac ea lt by (auto simp: word_less_nat_alt min_def)
    have "min (unat chunk) (unat end - unat a) \<le> unat end - unat a" by simp
    then have "unat a + unat ?n \<le> unat end" using lt by (simp only: n)
    have "unat end < 2 ^ LENGTH(32)" by (rule unsigned_less)
    with \<open>unat a + unat ?n \<le> unat end\<close> have "unat a + unat ?n < 2 ^ LENGTH(32)"
      by (rule le_less_trans)
    then have an: "unat (a + ?n) = unat a + unat ?n"
      by (rule unat_add_lem [THEN iffD1])
    then have le': "a + ?n \<le> end"
      using \<open>unat a + unat ?n \<le> unat end\<close> by (simp add: word_le_nat_alt)
    have npos: "0 < unat ?n" using cpos lpos by (simp only: n)
    have "unat end - (unat a + unat ?n) < unat end - unat a"
      using npos lt \<open>unat a + unat ?n \<le> unat end\<close> by linarith
    then have dec: "unat end - unat (a + ?n) < unat end - unat a"
      by (simp only: an)
    have rest: "unat end - unat (a + ?n) = (unat end - unat a) - min (unat chunk) (unat end - unat a)"
      by (simp only: an n diff_diff_eq)
    note IH = less.hyps [OF dec le']
    show ?thesis
      unfolding backup_loop_step [OF True] chunk_ranges_step [OF cpos lpos]
      using IH n an rest
      by (simp add: Let_def split_beta)
  qed
qed

text \<open>
  C5 (amended). For a non-zero chunk size and a range with
  \<open>offset + len + chunk \<le> 2^32\<close>, \<^verbatim>\<open>jedec_backup_stream\<close> reads and hands to the sink the
  chunks starting at \<open>offset\<close>, \<open>offset + chunk\<close>, ... in this order, each of \<open>chunk\<close> bytes
  but for a possibly shorter last one, their lengths adding up to \<open>len\<close>; it stops with
  failure at the first sink invocation that returns false and invokes the sink no more.
  The branch that stops at a failed read is there, but \<^verbatim>\<open>jedec_read_chunk\<close> returns
  \<^verbatim>\<open>true\<close> on every input, so only the sink ends a backup early. A chunk size of 0 is
  refused before anything is read.
\<close>

theorem backup_stream_chunks:
  assumes "chunk \<noteq> 0"
    and "unat offset + unat len + unat chunk \<le> 2 ^ 32"
  shows "jedec_backup_stream chip offset len chunk (Some sink) user True b
           = Some (feed_chunks chip sink
                     (chunk_ranges (unat offset) (unat len) (unat chunk)) user b)
       \<and> sum_list (map snd (chunk_ranges (unat offset) (unat len) (unat chunk))) = unat len
       \<and> fst (jedec_read_chunk chip a n b') = True
       \<and> jedec_backup_stream chip offset len 0 sink_in user heap_ok b = Some (False, user, b)"
proof -
  have z: "jedec_backup_stream chip offset len 0 sink_in user heap_ok b = Some (False, user, b)"
    by (simp add: jedec_backup_stream_def split: option.splits)
  have cpos: "0 < unat chunk" using assms(1) by (simp add: unat_gt_0)
  then have "unat offset + unat len < 2 ^ LENGTH(32)" using assms(2) by simp
  then have e: "unat (offset + len) = unat offset + unat len"
    by (rule unat_add_lem [THEN iffD1])
  then have le: "offset \<le> offset + len" by (simp add: word_le_nat_alt)
  have fit: "unat (offset + len) + unat chunk \<le> 2 ^ 32" using e assms(2) by simp
  have "backup_loop chip sink chunk (offset + len) offset user b
      = Some (feed_chunks chip sink
                (chunk_ranges (unat offset) (unat (offset + len) - unat offset) (unat chunk)) user b)"
    by (rule backup_loop_feed [OF assms(1) fit le])
  then show ?thesis
    using assms(1) e chunk_ranges_sum [OF cpos] z
    by (simp add: jedec_backup_stream_def jedec_read_chunk_ok)
qed

lemmas backup_eval =
  restore_eval feed_chunks.simps chunk_ranges_def rec_sink_def

theorem backup_stream_chunks_witness:
  "map_option (\<lambda>(ok, calls, b). (ok, calls))
     (jedec_backup_stream small_chip 0 8 3 (Some (rec_sink None)) [] True
        (mock_bus (flash_chip [1, 2, 3, 4, 5, 6, 7, 8] None)))
   = Some (True, [(0, [1, 2, 3]), (3, [4, 5, 6]), (6, [7, 8])])
   \<and> map_option (\<lambda>(ok, calls, b). (ok, calls))
     (jedec_backup_stream small_chip 0 8 3 (Some (rec_sink (Some 3))) [] True
        (mock_bus (flash_chip [1, 2, 3, 4, 5, 6, 7, 8] None)))
   = Some (False, [(0, [1, 2, 3]), (3, [4, 5, 6])])"
proof -
  have h1: "(3 :: u32) \<noteq> 0" by simp
  have h2: "unat (0 :: u32) + unat (8 :: u32) + unat (3 :: u32) \<le> 2 ^ 32" by simp
  have r: "chunk_ranges (unat (0 :: u32)) (unat (8 :: u32)) (unat (3 :: u32)) = [(0, 3), (3, 3), (6, 2)]"
    by (simp add: chunk_ranges_def upt_numeral_unfold)
  note A = backup_stream_chunks [OF h1 h2, of small_chip "rec_sink None" "[]"
      "mock_bus (flash_chip [1, 2, 3, 4, 5, 6, 7, 8] None)", THEN conjunct1]
  note B = backup_stream_chunks [OF h1 h2, of small_chip "rec_sink (Some 3)" "[]"
      "mock_bus (flash_chip [1, 2, 3, 4, 5, 6, 7, 8] None)", THEN conjunct1]
  show ?thesis
    by (simp only: A B r) (simp add: backup_eval)
qed

text \<open>
  C5 as stated fails where the 32-bit sum \<^verbatim>\<open>a+n\<close> wraps: for offset \<^verbatim>\<open>0xFFFFFFF0\<close>,
  length 8 and chunk size 32 the first chunk is not cut down to the 8 bytes of the range,
  the sink receives 32 bytes, and the loop goes on at address \<^verbatim>\<open>0x10\<close>, below the range.
  The sink here refuses its second invocation.
\<close>

theorem backup_stream_wrap_counterexample:
  "map_option (\<lambda>(ok, calls, b). (ok, map (\<lambda>(a, data). (a, length data)) calls))
     (jedec_backup_stream small_chip 0xFFFFFFF0 8 32 (Some (rec_sink (Some 0x10))) [] True
        (mock_bus (flash_chip [1, 2, 3, 4, 5, 6, 7, 8] None)))
   = Some (False, [(0xFFFFFFF0, 32), (0x10, 32)])"
  by (simp add: jedec_backup_stream_def backup_loop_step backup_loop_done rec_sink_def
        jedec_read_chunk_def spi_xfer_def split_beta Let_def)

section \<open>Verification: derived 50 MHz table\<close>

lemma find_best_below_loop_spec:
  "i \<le> n \<Longrightarrow> \<forall>j<n. - 100000 < mhz ! j \<Longrightarrow>
   (idx = - 1 \<and> best = - 100000 \<and> (\<forall>j<i. \<not> mhz ! j < 50))
     \<or> (0 \<le> idx \<and> nat idx < i \<and> best = mhz ! nat idx \<and> best < 50
         \<and> (\<forall>j<i. mhz ! j < 50 \<longrightarrow> mhz ! j \<le> best)) \<Longrightarrow>
   (find_best_below_loop mhz n i idx best = - 1 \<and> (\<forall>j<n. \<not> mhz ! j < 50))
     \<or> (0 \<le> find_best_below_loop mhz n i idx best
         \<and> nat (find_best_below_loop mhz n i idx best) < n
         \<and> mhz ! nat (find_best_below_loop mhz n i idx best) < 50
         \<and> (\<forall>j<n. mhz ! j < 50 \<longrightarrow> mhz ! j \<le> mhz ! nat (find_best_below_loop mhz n i idx best)))"
proof (induction mhz n i idx best rule: find_best_below_loop.induct)
  case (1 mhz n i idx best)
  show ?case
  proof (cases "i < n")
    case False
    with "1.prems"(1) have "i = n" by simp
    with "1.prems"(3) show ?thesis by (subst (1 2 3 4 5) find_best_below_loop.simps) auto
  next
    case True
    show ?thesis
    proof (cases "mhz ! i < 50 \<and> mhz ! i > best")
      case sel: True
      have inv: "(int i = - 1 \<and> mhz ! i = - 100000 \<and> (\<forall>j<i + 1. \<not> mhz ! j < 50))
         \<or> (0 \<le> int i \<and> nat (int i) < i + 1 \<and> mhz ! i = mhz ! nat (int i) \<and> mhz ! i < 50
             \<and> (\<forall>j<i + 1. mhz ! j < 50 \<longrightarrow> mhz ! j \<le> mhz ! i))"
        using "1.prems"(3) sel by (auto simp: less_Suc_eq)
      have eq: "find_best_below_loop mhz n i idx best = find_best_below_loop mhz n (i + 1) (int i) (mhz ! i)"
        using find_best_below_loop.simps [of mhz n i idx best]
        by (simp only: True sel if_True simp_thms)
      from "1.IH"(1) [OF True sel _ "1.prems"(2) inv] True show ?thesis
        by (simp add: eq)
    next
      case nsel: False
      have inv: "(idx = - 1 \<and> best = - 100000 \<and> (\<forall>j<i + 1. \<not> mhz ! j < 50))
         \<or> (0 \<le> idx \<and> nat idx < i + 1 \<and> best = mhz ! nat idx \<and> best < 50
             \<and> (\<forall>j<i + 1. mhz ! j < 50 \<longrightarrow> mhz ! j \<le> best))"
        using "1.prems"(2,3) nsel True by (auto simp: less_Suc_eq)
      have eq: "find_best_below_loop mhz n i idx best = find_best_below_loop mhz n (i + 1) idx best"
        using find_best_below_loop.simps [of mhz n i idx best]
        by (simp only: True nsel if_True if_False simp_thms)
      from "1.IH"(2) [OF True nsel _ "1.prems"(2) inv] True show ?thesis
        by (simp add: eq)
    qed
  qed
qed

lemma find_best_above_loop_spec:
  "i \<le> n \<Longrightarrow> \<forall>j<n. mhz ! j < 1000000 \<Longrightarrow>
   (idx = - 1 \<and> best = 1000000 \<and> (\<forall>j<i. \<not> 50 < mhz ! j))
     \<or> (0 \<le> idx \<and> nat idx < i \<and> best = mhz ! nat idx \<and> 50 < best
         \<and> (\<forall>j<i. 50 < mhz ! j \<longrightarrow> best \<le> mhz ! j)) \<Longrightarrow>
   (find_best_above_loop mhz n i idx best = - 1 \<and> (\<forall>j<n. \<not> 50 < mhz ! j))
     \<or> (0 \<le> find_best_above_loop mhz n i idx best
         \<and> nat (find_best_above_loop mhz n i idx best) < n
         \<and> 50 < mhz ! nat (find_best_above_loop mhz n i idx best)
         \<and> (\<forall>j<n. 50 < mhz ! j \<longrightarrow> mhz ! nat (find_best_above_loop mhz n i idx best) \<le> mhz ! j))"
proof (induction mhz n i idx best rule: find_best_above_loop.induct)
  case (1 mhz n i idx best)
  show ?case
  proof (cases "i < n")
    case False
    with "1.prems"(1) have "i = n" by simp
    with "1.prems"(3) show ?thesis by (subst (1 2 3 4 5) find_best_above_loop.simps) auto
  next
    case True
    show ?thesis
    proof (cases "mhz ! i > 50 \<and> mhz ! i < best")
      case sel: True
      have inv: "(int i = - 1 \<and> mhz ! i = 1000000 \<and> (\<forall>j<i + 1. \<not> 50 < mhz ! j))
         \<or> (0 \<le> int i \<and> nat (int i) < i + 1 \<and> mhz ! i = mhz ! nat (int i) \<and> 50 < mhz ! i
             \<and> (\<forall>j<i + 1. 50 < mhz ! j \<longrightarrow> mhz ! i \<le> mhz ! j))"
        using "1.prems"(3) sel by (auto simp: less_Suc_eq)
      have eq: "find_best_above_loop mhz n i idx best = find_best_above_loop mhz n (i + 1) (int i) (mhz ! i)"
        using find_best_above_loop.simps [of mhz n i idx best]
        by (simp only: True sel if_True simp_thms)
      from "1.IH"(1) [OF True sel _ "1.prems"(2) inv] True show ?thesis
        by (simp add: eq)
    next
      case nsel: False
      have inv: "(idx = - 1 \<and> best = 1000000 \<and> (\<forall>j<i + 1. \<not> 50 < mhz ! j))
         \<or> (0 \<le> idx \<and> nat idx < i + 1 \<and> best = mhz ! nat idx \<and> 50 < best
             \<and> (\<forall>j<i + 1. 50 < mhz ! j \<longrightarrow> best \<le> mhz ! j))"
        using "1.prems"(2,3) nsel True by (auto simp: less_Suc_eq)
      have eq: "find_best_above_loop mhz n i idx best = find_best_above_loop mhz n (i + 1) idx best"
        using find_best_above_loop.simps [of mhz n i idx best]
        by (simp only: True nsel if_True if_False simp_thms)
      from "1.IH"(2) [OF True nsel _ "1.prems"(2) inv] True show ?thesis
        by (simp add: eq)
    qed
  qed
qed

lemma find_closest_loop_spec:
  "i \<le> n \<Longrightarrow> 0 < n \<Longrightarrow> \<forall>j<n. \<bar>mhz ! j - 50\<bar> < 1000000 \<Longrightarrow>
   (idx = - 1 \<and> bestd = 1000000 \<and> i = 0)
     \<or> (0 \<le> idx \<and> nat idx < i \<and> bestd = \<bar>mhz ! nat idx - 50\<bar>
         \<and> (\<forall>j<i. bestd \<le> \<bar>mhz ! j - 50\<bar>)) \<Longrightarrow>
   0 \<le> find_closest_loop mhz n i idx bestd
     \<and> nat (find_closest_loop mhz n i idx bestd) < n
     \<and> (\<forall>j<n. \<bar>mhz ! nat (find_closest_loop mhz n i idx bestd) - 50\<bar> \<le> \<bar>mhz ! j - 50\<bar>)"
proof (induction mhz n i idx bestd rule: find_closest_loop.induct)
  case (1 mhz n i idx bestd)
  show ?case
  proof (cases "i < n")
    case False
    with "1.prems"(1) have "i = n" by simp
    with "1.prems"(2,4) show ?thesis by (subst (1 2 3) find_closest_loop.simps) auto
  next
    case True
    show ?thesis
    proof (cases "\<bar>mhz ! i - 50\<bar> < bestd")
      case sel: True
      have inv: "(int i = - 1 \<and> \<bar>mhz ! i - 50\<bar> = 1000000 \<and> i + 1 = 0)
         \<or> (0 \<le> int i \<and> nat (int i) < i + 1 \<and> \<bar>mhz ! i - 50\<bar> = \<bar>mhz ! nat (int i) - 50\<bar>
             \<and> (\<forall>j<i + 1. \<bar>mhz ! i - 50\<bar> \<le> \<bar>mhz ! j - 50\<bar>))"
        using "1.prems"(4) sel by (auto simp: less_Suc_eq)
      have eq: "find_closest_loop mhz n i idx bestd = find_closest_loop mhz n (i + 1) (int i) \<bar>mhz ! i - 50\<bar>"
        using find_closest_loop.simps [of mhz n i idx bestd]
        by (simp only: True sel if_True Let_def simp_thms)
      from "1.IH"(1) [OF True refl sel _ "1.prems"(2,3) inv] True show ?thesis
        by (simp add: eq)
    next
      case nsel: False
      have r: "\<bar>mhz ! i - 50\<bar> < 1000000" using "1.prems"(3) True by simp
      have inv: "(idx = - 1 \<and> bestd = 1000000 \<and> i + 1 = 0)
         \<or> (0 \<le> idx \<and> nat idx < i + 1 \<and> bestd = \<bar>mhz ! nat idx - 50\<bar>
             \<and> (\<forall>j<i + 1. bestd \<le> \<bar>mhz ! j - 50\<bar>))"
        using "1.prems"(4) nsel r by (auto simp: less_Suc_eq)
      have eq: "find_closest_loop mhz n i idx bestd = find_closest_loop mhz n (i + 1) idx bestd"
        using find_closest_loop.simps [of mhz n i idx bestd]
        by (simp only: True nsel if_True if_False Let_def simp_thms)
      from "1.IH"(2) [OF True refl nsel _ "1.prems"(2,3) inv] True show ?thesis
        by (simp add: eq)
    qed
  qed
qed

lemma find_best_below_spec:
  assumes "\<forall>x \<in> set A. - 100000 < x"
  shows "(find_best_below A (length A) = - 1 \<and> (\<forall>x \<in> set A. \<not> x < 50))
     \<or> (0 \<le> find_best_below A (length A) \<and> nat (find_best_below A (length A)) < length A
         \<and> A ! nat (find_best_below A (length A)) < 50
         \<and> (\<forall>x \<in> set A. x < 50 \<longrightarrow> x \<le> A ! nat (find_best_below A (length A))))"
proof -
  have r: "\<forall>j<length A. - 100000 < A ! j" using assms by simp
  from find_best_below_loop_spec [of 0 "length A" A "- 1" "- 100000", OF _ r]
  show ?thesis by (simp add: find_best_below_def all_set_conv_all_nth)
qed

lemma find_best_above_spec:
  assumes "\<forall>x \<in> set A. x < 1000000"
  shows "(find_best_above A (length A) = - 1 \<and> (\<forall>x \<in> set A. \<not> 50 < x))
     \<or> (0 \<le> find_best_above A (length A) \<and> nat (find_best_above A (length A)) < length A
         \<and> 50 < A ! nat (find_best_above A (length A))
         \<and> (\<forall>x \<in> set A. 50 < x \<longrightarrow> A ! nat (find_best_above A (length A)) \<le> x))"
proof -
  have r: "\<forall>j<length A. A ! j < 1000000" using assms by simp
  from find_best_above_loop_spec [of 0 "length A" A "- 1" 1000000, OF _ r]
  show ?thesis by (simp add: find_best_above_def all_set_conv_all_nth)
qed

lemma find_closest_spec:
  assumes "\<forall>x \<in> set A. \<bar>x - 50\<bar> < 1000000" and "A \<noteq> []"
  shows "0 \<le> find_closest A (length A) \<and> nat (find_closest A (length A)) < length A
     \<and> (\<forall>x \<in> set A. \<bar>A ! nat (find_closest A (length A)) - 50\<bar> \<le> \<bar>x - 50\<bar>)"
proof -
  have r: "\<forall>j<length A. \<bar>A ! j - 50\<bar> < 1000000" using assms(1) by simp
  have n: "0 < length A" using assms(2) by simp
  from find_closest_loop_spec [of 0 "length A" A "- 1" 1000000, OF _ n r]
  show ?thesis by (simp add: find_closest_def all_set_conv_all_nth)
qed

lemma interp_50_exact:
  assumes "f_lo < 50" and "50 < f_hi"
  shows "interp_50 exact_arith (real_of_int f_lo) (real_of_int f_hi) x y
       = x + (50 - real_of_int f_lo) / (real_of_int f_hi - real_of_int f_lo) * (y - x)"
proof -
  have "real_of_int f_hi - real_of_int f_lo > 1" using assms by simp
  then have "\<not> \<bar>real_of_int f_hi - real_of_int f_lo\<bar> < 1 / 10 ^ 9" by simp
  then show ?thesis by (simp add: interp_50_def exact_arith_def Let_def)
qed

lemma interp_50_between:
  assumes "f_lo < 50" and "50 < f_hi"
  shows "min x y \<le> interp_50 exact_arith (real_of_int f_lo) (real_of_int f_hi) x y
       \<and> interp_50 exact_arith (real_of_int f_lo) (real_of_int f_hi) x y \<le> max x y
       \<and> (x \<noteq> y \<longrightarrow> min x y < interp_50 exact_arith (real_of_int f_lo) (real_of_int f_hi) x y
                   \<and> interp_50 exact_arith (real_of_int f_lo) (real_of_int f_hi) x y < max x y)"
proof -
  define t where "t = (50 - real_of_int f_lo) / (real_of_int f_hi - real_of_int f_lo)"
  have d: "0 < real_of_int f_hi - real_of_int f_lo" using assms by simp
  have t0: "0 < t" unfolding t_def using assms d by simp
  have t1: "t < 1" unfolding t_def using assms d by simp
  have e: "interp_50 exact_arith (real_of_int f_lo) (real_of_int f_hi) x y = x + t * (y - x)"
    unfolding t_def by (rule interp_50_exact [OF assms])
  consider "x < y" | "y < x" | "x = y" by linarith
  then show ?thesis
  proof cases
    case 1
    then have p: "0 < y - x" by simp
    have l: "0 < t * (y - x)" using t0 p by (rule mult_pos_pos)
    have "t * (y - x) < 1 * (y - x)" using t1 p by (rule mult_strict_right_mono)
    then have u: "t * (y - x) < y - x" by (simp only: mult_1)
    have a: "x < x + t * (y - x)" using l by linarith
    have b: "x + t * (y - x) < y" using u by linarith
    show ?thesis using 1 a b by (simp add: e min_def max_def)
  next
    case 2
    then have p: "0 < x - y" by simp
    have l: "0 < t * (x - y)" using t0 p by (rule mult_pos_pos)
    have "t * (x - y) < 1 * (x - y)" using t1 p by (rule mult_strict_right_mono)
    then have u: "t * (x - y) < x - y" by (simp only: mult_1)
    have m: "t * (y - x) = - (t * (x - y))" by (simp add: algebra_simps)
    have a: "y < x + t * (y - x)" using u m by linarith
    have b: "x + t * (y - x) < x" using l m by linarith
    show ?thesis using 2 a b by (simp add: e min_def max_def)
  next
    case 3
    have r: "interp_50 exact_arith (real_of_int f_lo) (real_of_int f_hi) x y = x"
      unfolding e using 3 by simp
    show ?thesis unfolding r using 3 by simp
  qed
qed

lemma derive_result:
  assumes "used = filter filled caps" and "used \<noteq> []" and "length used \<le> 8"
    and "\<forall>c \<in> set used. 0 \<le> actual_mhz c \<and> actual_mhz c \<le> 4294"
  shows "read_derive_and_print_50 ar caps
     = Some (map (\<lambda>si. derived_row ar used (find_closest (map actual_mhz used) (length used)) si
                       (mb50_at ar (map actual_mhz used) used
                          (find_best_below (map actual_mhz used) (length used))
                          (find_best_above (map actual_mhz used) (length used))
                          (find_closest (map actual_mhz used) (length used)) si))
                 [0..<5],
             mb50_at ar (map actual_mhz used) used
               (find_best_below (map actual_mhz used) (length used))
               (find_best_above (map actual_mhz used) (length used))
               (find_closest (map actual_mhz used) (length used)) 2)"
proof -
  have r: "\<forall>x \<in> set (map actual_mhz used). \<bar>x - 50\<bar> < 1000000"
    using assms(4) by auto
  have "0 \<le> find_closest (map actual_mhz used) (length (map actual_mhz used))"
    using find_closest_spec [OF r] assms(2) by simp
  then have c: "\<not> find_closest (map actual_mhz used) (length used) < 0" by simp
  have m: "\<not> 8 < length used" "length used \<noteq> 0" using assms(2,3) by simp_all
  show ?thesis
    unfolding read_derive_and_print_50_def Let_def assms(1) [symmetric]
    using c m by (simp only: if_False)
qed

text \<open>
  C9 (amended). Among the filled captures \<^verbatim>\<open>read_derive_and_print_50\<close> takes as \<open>lo\<close> one
  with the greatest achieved clock strictly below 50 MHz and as \<open>hi\<close> one with the smallest
  achieved clock strictly above 50 MHz; a capture at exactly 50 MHz is neither. When both
  exist, the throughput derived for each read size is the interpolation
  \<open>mb_lo + ((50 - f_lo) / (f_hi - f_lo)) * (mb_hi - mb_lo)\<close>, computed in \<^verbatim>\<open>double\<close>; without
  rounding it lies between the two measured throughputs, strictly when they differ. When
  one of them is missing, the throughput derived is that of a capture closest to 50 MHz
  multiplied by 50 divided by its achieved clock. The speed stored is the throughput
  derived for the sector size.
\<close>

theorem derive_50_interpolation:
  assumes "used = filter filled caps" and "used \<noteq> []" and "length used \<le> 8"
    and "\<forall>c \<in> set used. 0 \<le> actual_mhz c \<and> actual_mhz c \<le> 4294"
    and "lo = used ! nat (find_best_below (map actual_mhz used) (length used))"
    and "hi = used ! nat (find_best_above (map actual_mhz used) (length used))"
    and "cl = used ! nat (find_closest (map actual_mhz used) (length used))"
    and "si < 5"
  shows "\<exists>out. read_derive_and_print_50 ar caps = Some (out, mb_s (out ! 2)) \<and> length out = 5
      \<and> ((\<exists>c \<in> set used. actual_mhz c < 50) \<and> (\<exists>c \<in> set used. 50 < actual_mhz c) \<longrightarrow>
           lo \<in> set used \<and> hi \<in> set used \<and> actual_mhz lo < 50 \<and> 50 < actual_mhz hi
           \<and> (\<forall>c \<in> set used. actual_mhz c < 50 \<longrightarrow> actual_mhz c \<le> actual_mhz lo)
           \<and> (\<forall>c \<in> set used. 50 < actual_mhz c \<longrightarrow> actual_mhz hi \<le> actual_mhz c)
           \<and> mb_s (out ! si) = interp_50 ar (d_cast ar (actual_mhz lo)) (d_cast ar (actual_mhz hi))
                                  (mb_s (rows lo ! si)) (mb_s (rows hi ! si)))
      \<and> (\<not> ((\<exists>c \<in> set used. actual_mhz c < 50) \<and> (\<exists>c \<in> set used. 50 < actual_mhz c)) \<longrightarrow>
           cl \<in> set used
           \<and> (\<forall>c \<in> set used. \<bar>actual_mhz cl - 50\<bar> \<le> \<bar>actual_mhz c - 50\<bar>)
           \<and> mb_s (out ! si) = scale_50 ar (d_cast ar (actual_mhz cl)) (mb_s (rows cl ! si)))
      \<and> (f_lo < 50 \<and> 50 < f_hi \<longrightarrow>
           interp_50 exact_arith (real_of_int f_lo) (real_of_int f_hi) x y
             = x + (50 - real_of_int f_lo) / (real_of_int f_hi - real_of_int f_lo) * (y - x)
           \<and> min x y \<le> interp_50 exact_arith (real_of_int f_lo) (real_of_int f_hi) x y
           \<and> interp_50 exact_arith (real_of_int f_lo) (real_of_int f_hi) x y \<le> max x y
           \<and> (x \<noteq> y \<longrightarrow> min x y < interp_50 exact_arith (real_of_int f_lo) (real_of_int f_hi) x y
                       \<and> interp_50 exact_arith (real_of_int f_lo) (real_of_int f_hi) x y < max x y))
      \<and> scale_50 exact_arith f_c x = x * (50 / f_c)"
proof -
  let ?A = "map actual_mhz used"
  let ?m = "length used"
  let ?il = "find_best_below ?A ?m"
  let ?ih = "find_best_above ?A ?m"
  let ?ic = "find_closest ?A ?m"
  let ?out = "map (\<lambda>si. derived_row ar used ?ic si (mb50_at ar ?A used ?il ?ih ?ic si)) [0..<5]"
  have r1: "\<forall>x \<in> set ?A. - 100000 < x" and r2: "\<forall>x \<in> set ?A. x < 1000000"
    and r3: "\<forall>x \<in> set ?A. \<bar>x - 50\<bar> < 1000000"
    using assms(4) by auto
  have ne: "?A \<noteq> []" using assms(2) by simp
  note B = find_best_below_spec [OF r1, simplified]
  note U = find_best_above_spec [OF r2, simplified]
  note C = find_closest_spec [OF r3 ne, simplified]
  have row: "\<And>k. k < 5 \<Longrightarrow> mb_s (?out ! k) = mb50_at ar ?A used ?il ?ih ?ic k"
    by (simp add: derived_row_def Let_def)
  have res: "read_derive_and_print_50 ar caps = Some (?out, mb_s (?out ! 2))"
    using derive_result [OF assms(1-4), of ar] row [of 2] by simp
  have len: "length ?out = 5" by simp
  have br: "(\<exists>c \<in> set used. actual_mhz c < 50) \<and> (\<exists>c \<in> set used. 50 < actual_mhz c) \<longrightarrow>
           lo \<in> set used \<and> hi \<in> set used \<and> actual_mhz lo < 50 \<and> 50 < actual_mhz hi
           \<and> (\<forall>c \<in> set used. actual_mhz c < 50 \<longrightarrow> actual_mhz c \<le> actual_mhz lo)
           \<and> (\<forall>c \<in> set used. 50 < actual_mhz c \<longrightarrow> actual_mhz hi \<le> actual_mhz c)
           \<and> mb_s (?out ! si) = interp_50 ar (d_cast ar (actual_mhz lo)) (d_cast ar (actual_mhz hi))
                                  (mb_s (rows lo ! si)) (mb_s (rows hi ! si))"
  proof
    assume a: "(\<exists>c \<in> set used. actual_mhz c < 50) \<and> (\<exists>c \<in> set used. 50 < actual_mhz c)"
    from a B have b: "0 \<le> ?il" "nat ?il < ?m" "actual_mhz (used ! nat ?il) < 50"
      "\<forall>c \<in> set used. actual_mhz c < 50 \<longrightarrow> actual_mhz c \<le> actual_mhz (used ! nat ?il)"
      by auto
    from a U have u: "0 \<le> ?ih" "nat ?ih < ?m" "50 < actual_mhz (used ! nat ?ih)"
      "\<forall>c \<in> set used. 50 < actual_mhz c \<longrightarrow> actual_mhz (used ! nat ?ih) \<le> actual_mhz c"
      by auto
    have "mb50_at ar ?A used ?il ?ih ?ic si
        = interp_50 ar (d_cast ar (actual_mhz lo)) (d_cast ar (actual_mhz hi))
            (mb_s (rows lo ! si)) (mb_s (rows hi ! si))"
      using b(1,2) u(1,2) by (simp add: mb50_at_def assms(5,6))
    then show "lo \<in> set used \<and> hi \<in> set used \<and> actual_mhz lo < 50 \<and> 50 < actual_mhz hi
           \<and> (\<forall>c \<in> set used. actual_mhz c < 50 \<longrightarrow> actual_mhz c \<le> actual_mhz lo)
           \<and> (\<forall>c \<in> set used. 50 < actual_mhz c \<longrightarrow> actual_mhz hi \<le> actual_mhz c)
           \<and> mb_s (?out ! si) = interp_50 ar (d_cast ar (actual_mhz lo)) (d_cast ar (actual_mhz hi))
                                  (mb_s (rows lo ! si)) (mb_s (rows hi ! si))"
      using b u row [OF assms(8)] by (simp add: assms(5,6))
  qed
  have nb: "\<not> ((\<exists>c \<in> set used. actual_mhz c < 50) \<and> (\<exists>c \<in> set used. 50 < actual_mhz c)) \<longrightarrow>
           cl \<in> set used
           \<and> (\<forall>c \<in> set used. \<bar>actual_mhz cl - 50\<bar> \<le> \<bar>actual_mhz c - 50\<bar>)
           \<and> mb_s (?out ! si) = scale_50 ar (d_cast ar (actual_mhz cl)) (mb_s (rows cl ! si))"
  proof
    assume a: "\<not> ((\<exists>c \<in> set used. actual_mhz c < 50) \<and> (\<exists>c \<in> set used. 50 < actual_mhz c))"
    from a B U have "?il = - 1 \<or> ?ih = - 1" by auto
    then have n: "\<not> (0 \<le> ?il \<and> 0 \<le> ?ih)" by auto
    from C have c: "nat ?ic < ?m"
      "\<forall>c \<in> set used. \<bar>actual_mhz (used ! nat ?ic) - 50\<bar> \<le> \<bar>actual_mhz c - 50\<bar>"
      by auto
    have e1: "mb50_at ar ?A used ?il ?ih ?ic si
        = scale_50 ar (d_cast ar (?A ! nat ?ic)) (mb_s (rows (used ! nat ?ic) ! si))"
      by (simp only: mb50_at_def n if_False)
    have e2: "?A ! nat ?ic = actual_mhz (used ! nat ?ic)" using c(1) by simp
    have "mb50_at ar ?A used ?il ?ih ?ic si
        = scale_50 ar (d_cast ar (actual_mhz cl)) (mb_s (rows cl ! si))"
      by (simp only: e1 e2 assms(7))
    then show "cl \<in> set used
           \<and> (\<forall>c \<in> set used. \<bar>actual_mhz cl - 50\<bar> \<le> \<bar>actual_mhz c - 50\<bar>)
           \<and> mb_s (?out ! si) = scale_50 ar (d_cast ar (actual_mhz cl)) (mb_s (rows cl ! si))"
      using c row [OF assms(8)] by (simp add: assms(7))
  qed
  have ex: "f_lo < 50 \<and> 50 < f_hi \<longrightarrow>
           interp_50 exact_arith (real_of_int f_lo) (real_of_int f_hi) x y
             = x + (50 - real_of_int f_lo) / (real_of_int f_hi - real_of_int f_lo) * (y - x)
           \<and> min x y \<le> interp_50 exact_arith (real_of_int f_lo) (real_of_int f_hi) x y
           \<and> interp_50 exact_arith (real_of_int f_lo) (real_of_int f_hi) x y \<le> max x y
           \<and> (x \<noteq> y \<longrightarrow> min x y < interp_50 exact_arith (real_of_int f_lo) (real_of_int f_hi) x y
                       \<and> interp_50 exact_arith (real_of_int f_lo) (real_of_int f_hi) x y < max x y)"
    using interp_50_exact [of f_lo f_hi x y] interp_50_between [of f_lo f_hi x y] by blast
  have sc: "scale_50 exact_arith f_c x = x * (50 / f_c)" by (simp add: scale_50_def exact_arith_def)
  from res len br nb ex sc show ?thesis by blast
qed

lemmas derive_eval =
  read_derive_and_print_50_def flat_capture_def find_best_below_def find_best_above_def
  find_closest_def find_best_below_loop.simps find_best_above_loop.simps find_closest_loop.simps
  mb50_at_def derived_row_def interp_50_def scale_50_def exact_arith_def Let_def

theorem derive_50_interpolation_witness:
  "(\<exists>out. read_derive_and_print_50 exact_arith [flat_capture 63 30, flat_capture 32 10, flat_capture 21 7]
            = Some (out, mb_s (out ! 2))
      \<and> 10 < mb_s (out ! 2) \<and> mb_s (out ! 2) < 30)
   \<and> (\<exists>out. read_derive_and_print_50 exact_arith [flat_capture 32 10, flat_capture 21 7]
            = Some (out, mb_s (out ! 2))
      \<and> mb_s (out ! 2) = 10 * (50 / 32))"
proof -
  let ?c1 = "[flat_capture 63 30, flat_capture 32 10, flat_capture 21 7]"
  let ?c2 = "[flat_capture 32 10, flat_capture 21 7]"
  have a1: "?c1 = filter filled ?c1" and a2: "?c1 \<noteq> []" and a3: "length ?c1 \<le> 8"
    and a4: "\<forall>c \<in> set ?c1. 0 \<le> actual_mhz c \<and> actual_mhz c \<le> 4294"
    by (simp_all add: flat_capture_def)
  have a5: "flat_capture 32 10 = ?c1 ! nat (find_best_below (map actual_mhz ?c1) (length ?c1))"
    and a6: "flat_capture 63 30 = ?c1 ! nat (find_best_above (map actual_mhz ?c1) (length ?c1))"
    and a7: "flat_capture 63 30 = ?c1 ! nat (find_closest (map actual_mhz ?c1) (length ?c1))"
    by (simp_all add: derive_eval)
  have a8: "(2 :: nat) < 5" by simp
  from derive_50_interpolation [OF a1 a2 a3 a4 a5 a6 a7 a8, of exact_arith 32 63 10 30 1]
  obtain out where
    o: "read_derive_and_print_50 exact_arith ?c1 = Some (out, mb_s (out ! 2))"
    and i: "(\<exists>c \<in> set ?c1. actual_mhz c < 50) \<and> (\<exists>c \<in> set ?c1. 50 < actual_mhz c) \<longrightarrow>
          mb_s (out ! 2) = interp_50 exact_arith (d_cast exact_arith (actual_mhz (flat_capture 32 10)))
              (d_cast exact_arith (actual_mhz (flat_capture 63 30)))
              (mb_s (rows (flat_capture 32 10) ! 2)) (mb_s (rows (flat_capture 63 30) ! 2))"
    and b: "(32 :: int) < 50 \<and> (50 :: int) < 63 \<longrightarrow>
          ((10 :: real) \<noteq> 30 \<longrightarrow>
             min 10 30 < interp_50 exact_arith (real_of_int 32) (real_of_int 63) 10 30
             \<and> interp_50 exact_arith (real_of_int 32) (real_of_int 63) 10 30 < max 10 30)"
    by blast
  have p: "(\<exists>c \<in> set ?c1. actual_mhz c < 50) \<and> (\<exists>c \<in> set ?c1. 50 < actual_mhz c)"
    by (simp add: flat_capture_def)
  have v: "mb_s (out ! 2) = interp_50 exact_arith (real_of_int 32) (real_of_int 63) 10 30"
    using i p by (simp add: flat_capture_def exact_arith_def)
  have w: "10 < interp_50 exact_arith (real_of_int 32) (real_of_int 63) 10 30
       \<and> interp_50 exact_arith (real_of_int 32) (real_of_int 63) 10 30 < 30"
    using b by simp
  have first: "\<exists>out. read_derive_and_print_50 exact_arith ?c1 = Some (out, mb_s (out ! 2))
      \<and> 10 < mb_s (out ! 2) \<and> mb_s (out ! 2) < 30"
    using o v w by auto
  have b1: "?c2 = filter filled ?c2" and b2: "?c2 \<noteq> []" and b3: "length ?c2 \<le> 8"
    and b4: "\<forall>c \<in> set ?c2. 0 \<le> actual_mhz c \<and> actual_mhz c \<le> 4294"
    by (simp_all add: flat_capture_def)
  have b7: "flat_capture 32 10 = ?c2 ! nat (find_closest (map actual_mhz ?c2) (length ?c2))"
    by (simp add: derive_eval)
  from derive_50_interpolation [OF b1 b2 b3 b4 refl refl b7 a8, of exact_arith 0 0 0 0 32]
  obtain out2 where
    o2: "read_derive_and_print_50 exact_arith ?c2 = Some (out2, mb_s (out2 ! 2))"
    and s: "\<not> ((\<exists>c \<in> set ?c2. actual_mhz c < 50) \<and> (\<exists>c \<in> set ?c2. 50 < actual_mhz c)) \<longrightarrow>
          mb_s (out2 ! 2) = scale_50 exact_arith (d_cast exact_arith (actual_mhz (flat_capture 32 10)))
              (mb_s (rows (flat_capture 32 10) ! 2))"
    and sc: "scale_50 exact_arith 32 0 = 0 * (50 / 32)"
    by blast
  have q: "\<not> ((\<exists>c \<in> set ?c2. actual_mhz c < 50) \<and> (\<exists>c \<in> set ?c2. 50 < actual_mhz c))"
    by (simp add: flat_capture_def)
  have "mb_s (out2 ! 2) = 10 * (50 / 32)"
    using s q by (simp add: flat_capture_def exact_arith_def scale_50_def)
  with o2 have second: "\<exists>out. read_derive_and_print_50 exact_arith ?c2 = Some (out, mb_s (out ! 2))
      \<and> mb_s (out ! 2) = 10 * (50 / 32)"
    by auto
  from first second show ?thesis by blast
qed

text \<open>
  C9 as stated fails. With captures at 32 and 63 MHz of the same throughput the derived
  throughput is that throughput, not a value strictly between the two. With captures at
  32, 50 and 63 MHz the capture at 50 MHz, which is at most and at least 50, is in no
  bracketing pair: the result interpolates the captures at 32 and 63 MHz and differs from
  the throughput measured at 50 MHz.
\<close>

theorem derive_50_counterexample:
  "map_option (map mb_s \<circ> fst)
     (read_derive_and_print_50 exact_arith [flat_capture 32 10, flat_capture 63 10])
   = Some [10, 10, 10, 10, 10]
   \<and> map_option snd
     (read_derive_and_print_50 exact_arith [flat_capture 32 10, flat_capture 50 20, flat_capture 63 30])
   = Some (670 / 31)"
  by (simp add: derive_eval upt_numeral_unfold)

end
